theory Spec2Isabelle
  imports Main "HOL-Library.Word"
begin

unbundle bit_operations_syntax

section \<open>Data model of src/standard/main.c\<close>

text \<open>
  The firmware targets an 8-bit Padauk controller compiled with SDCC, where \<open>int\<close> is
  16 bits wide: \<open>uint8_t\<close> is modelled as \<open>8 word\<close>, \<open>uint16_t\<close> as \<open>16 word\<close>, and
  arithmetic on \<open>uint16_t\<close> is arithmetic modulo \<open>2 ^ 16\<close>.  An expression such as
  \<open>LedPos[0]+24\<close> is computed in \<open>int\<close> and truncated when stored into the
  \<open>uint8_t\<close> variable \<open>intt\<close>, which is addition on \<open>8 word\<close>.
\<close>

type_synonym u8 = "8 word"
type_synonym u16 = "16 word"

text \<open>The ROM tables \<open>pp\<close> (73 entries) and \<open>colors\<close> (12 entries).\<close>

definition pp :: "u8 list" where
  "pp = [
    0x42,0x24,0x71,0x17,0x41,0x14,0x72,0x27,0x53,0x35,0x93,0x39,
    0x98,0x89,0x58,0x85,0x28,0x82,0x74,0x47,0x75,0x57,0x96,0x69,
    0x32,0x25,0x61,0x19,0x31,0x15,0x62,0x29,0x43,0x36,0x73,0x45,
    0x78,0x12,0x48,0x86,0x18,0x83,0x64,0x49,0x65,0x59,0x76,0x79,
    0x52,0x23,0x91,0x16,0x51,0x13,0x92,0x26,0x63,0x34,0x54,0x37,
    0x21,0x87,0x68,0x84,0x38,0x81,0x94,0x46,0x95,0x56,0x97,0x67,
    0x00]"

definition colors :: "u8 list" where
  "colors = [0x03,0x07,0x0a,0x0d,0x0c,0x1c,0x28,0x34,0x30,0x31,0x22,0x13]"

definition SETPA3 :: u8 where "SETPA3 = 0x08"
definition SETPA6 :: u8 where "SETPA6 = 0x40"

definition irwatchdogtimeout :: u16 where "irwatchdogtimeout = 4444"
definition transmitirpulseafter :: u16 where "transmitirpulseafter = 4074"
definition irpulsetime :: u16 where "irpulsetime = 2"
definition irdeaftime :: u16 where "irdeaftime = 2"

definition chaserpositiontargetcount0 :: u8 where "chaserpositiontargetcount0 = 113"
definition chaserpositiontargetcount1 :: u8 where "chaserpositiontargetcount1 = 11"
definition chaserpositiontargetcount2 :: u8 where "chaserpositiontargetcount2 = 9"
definition chasercolortargetcount :: u8 where "chasercolortargetcount = 253"

text \<open>
  The global variables of the program and the four port registers it writes.  The arrays
  \<open>LedPos\<close>, \<open>LedCol\<close>, \<open>LedChaseCount\<close> and \<open>randomposns\<close> have three elements each and
  are only ever indexed by the constants 0, 1 and 2.  The field \<open>oob\<close> is not a variable
  of the program: it records that a ROM table has been indexed outside its bounds
  (undefined behaviour in C), and once set it stays set.
\<close>

record state =
  debugstatus :: u8
  colorcount :: u8
  mode :: u8
  irwatchdog :: u16
  LedPos :: "u8 list"
  LedCol :: "u8 list"
  LedComTimePhase :: u8
  LedChaseCount :: "u8 list"
  LedColorCount :: u8
  randomnr :: u16
  randomposns :: "u8 list"
  elapsedtocks :: u16
  previoustocks :: u16
  intt :: u8
  intda :: u8
  intca :: u8
  intdb :: u8
  intcb :: u8
  PA :: u8
  PAC :: u8
  PB :: u8
  PBC :: u8
  oob :: bool

section \<open>The timer interrupt\<close>

subsection \<open>Part 3: which component LED is lit in this phase\<close>

text \<open>The first \<open>switch (LedComTimePhase)\<close>: the value left in \<open>intt\<close>, default 72.\<close>

definition led_select :: "u8 \<Rightarrow> u8 list \<Rightarrow> u8 list \<Rightarrow> u8" where
  "led_select ph col pos =
    (if ph = 0 then (if col ! 0 AND 0x01 \<noteq> 0 then pos ! 0 else 72)
     else if ph = 1 then (if col ! 0 AND 0x04 \<noteq> 0 then pos ! 0 + 24 else 72)
     else if ph = 2 then (if col ! 0 AND 0x10 \<noteq> 0 then pos ! 0 + 48 else 72)
     else if ph = 3 then (if col ! 1 AND 0x01 \<noteq> 0 then pos ! 1 else 72)
     else if ph = 4 then (if col ! 1 AND 0x04 \<noteq> 0 then pos ! 1 + 24 else 72)
     else if ph = 5 then (if col ! 1 AND 0x10 \<noteq> 0 then pos ! 1 + 48 else 72)
     else if ph = 6 then (if col ! 2 AND 0x01 \<noteq> 0 then pos ! 2 else 72)
     else if ph = 7 then (if col ! 2 AND 0x04 \<noteq> 0 then pos ! 2 + 24 else 72)
     else if ph = 8 then (if col ! 2 AND 0x10 \<noteq> 0 then pos ! 2 + 48 else 72)
     else if ph = 18 \<or> ph = 9 then (if col ! 0 AND 0x02 \<noteq> 0 then pos ! 0 else 72)
     else if ph = 19 \<or> ph = 10 then (if col ! 0 AND 0x08 \<noteq> 0 then pos ! 0 + 24 else 72)
     else if ph = 20 \<or> ph = 11 then (if col ! 0 AND 0x20 \<noteq> 0 then pos ! 0 + 48 else 72)
     else if ph = 21 \<or> ph = 12 then (if col ! 1 AND 0x02 \<noteq> 0 then pos ! 1 else 72)
     else if ph = 22 \<or> ph = 13 then (if col ! 1 AND 0x08 \<noteq> 0 then pos ! 1 + 24 else 72)
     else if ph = 23 \<or> ph = 14 then (if col ! 1 AND 0x20 \<noteq> 0 then pos ! 1 + 48 else 72)
     else if ph = 24 \<or> ph = 15 then (if col ! 2 AND 0x02 \<noteq> 0 then pos ! 2 else 72)
     else if ph = 25 \<or> ph = 16 then (if col ! 2 AND 0x08 \<noteq> 0 then pos ! 2 + 24 else 72)
     else if ph = 26 \<or> ph = 17 then (if col ! 2 AND 0x20 \<noteq> 0 then pos ! 2 + 48 else 72)
     else 72)"

definition display_select :: "state \<Rightarrow> state" where
  "display_select s = s\<lparr>intt := led_select (LedComTimePhase s) (LedCol s) (LedPos s)\<rparr>"

subsection \<open>Part 3, continued: decoding the pin pair into port values\<close>

text \<open>\<open>switch((pp[intt])>>4)\<close>: the pin driven high.\<close>

definition decode_high :: "u8 \<Rightarrow> state \<Rightarrow> state" where
  "decode_high h s =
    (if h = 0 then s\<lparr>intcb := 0x04\<rparr>
     else if h = 1 then s\<lparr>intdb := intdb s OR 0x01, intcb := 0x05\<rparr>
     else if h = 2 then s\<lparr>intdb := intdb s OR 0x02, intcb := 0x06\<rparr>
     else if h = 3 then s\<lparr>intdb := intdb s OR 0x08, intcb := 0x0c\<rparr>
     else if h = 4 then s\<lparr>intdb := intdb s OR 0x10, intcb := 0x14\<rparr>
     else if h = 5 then s\<lparr>intdb := intdb s OR 0x20, intcb := 0x24\<rparr>
     else if h = 6 then s\<lparr>intdb := intdb s OR 0x40, intcb := 0x44\<rparr>
     else if h = 7 then s\<lparr>intdb := intdb s OR 0x80, intcb := 0x84\<rparr>
     else if h = 8 then s\<lparr>intda := intda s OR 0x01, intca := 0x49\<rparr>
     else if h = 9 then s\<lparr>intda := intda s OR 0x80, intca := 0xc8\<rparr>
     else s)"

text \<open>\<open>switch((pp[intt])&0x0f)\<close>: the pin driven low.\<close>

definition decode_low :: "u8 \<Rightarrow> state \<Rightarrow> state" where
  "decode_low l s =
    (if l = 0 then s\<lparr>intcb := 0x04\<rparr>
     else if l = 1 then s\<lparr>intcb := intcb s OR 0x01\<rparr>
     else if l = 2 then s\<lparr>intcb := intcb s OR 0x02\<rparr>
     else if l = 3 then s\<lparr>intcb := intcb s OR 0x08\<rparr>
     else if l = 4 then s\<lparr>intcb := intcb s OR 0x10\<rparr>
     else if l = 5 then s\<lparr>intcb := intcb s OR 0x20\<rparr>
     else if l = 6 then s\<lparr>intcb := intcb s OR 0x40\<rparr>
     else if l = 7 then s\<lparr>intcb := intcb s OR 0x80\<rparr>
     else if l = 8 then s\<lparr>intca := intca s OR 0x01\<rparr>
     else if l = 9 then s\<lparr>intca := intca s OR 0x80\<rparr>
     else s)"

text \<open>
  The port images for a table byte \<open>v\<close>: the four assignments before the switches, then the
  two switches.
\<close>

definition drive_pins :: "u8 \<Rightarrow> state \<Rightarrow> state" where
  "drive_pins v s =
    decode_low (v AND 0x0f)
      (decode_high (drop_bit 4 v)
        (s\<lparr>intda := debugstatus s, intca := 0x48, intdb := 0, intcb := 0x04\<rparr>))"

text \<open>
  Reading \<open>pp[intt]\<close>, decoding it and writing \<open>PAC\<close>, \<open>PA\<close>, \<open>PBC\<close>, \<open>PB\<close>.  The table has
  \<open>length pp\<close> entries; a read at a larger index sets \<open>oob\<close>.
\<close>

definition display_output :: "state \<Rightarrow> state" where
  "display_output s =
    (let s1 = drive_pins (pp ! unat (intt s)) (s\<lparr>oob := oob s \<or> \<not> unat (intt s) < length pp\<rparr>)
     in s1\<lparr>PAC := intca s1, PA := intda s1, PBC := intcb s1, PB := intdb s1\<rparr>)"

subsection \<open>Part 4: pattern generation\<close>

text \<open>The macro \<open>makerandom\<close>: a 16-bit xorshift, the first line keeping it non-zero.\<close>

definition makerandom :: "u16 \<Rightarrow> u16" where
  "makerandom r =
    (let r1 = r OR (if r = 0 then 1 else 0);
         r2 = r1 XOR push_bit 13 r1;
         r3 = r2 XOR drop_bit 9 r2
     in r3 XOR push_bit 7 r3)"

text \<open>
  \<open>if ((randomnr & 0x18) != 0x18) randomposns[k]=randomnr&0x1f;\<close> where the 16-bit value
  is truncated to the \<open>uint8_t\<close> array element.
\<close>

definition store_random :: "nat \<Rightarrow> state \<Rightarrow> state" where
  "store_random k s =
    (if randomnr s AND 0x18 \<noteq> 0x18
     then s\<lparr>randomposns := (randomposns s)[k := ucast (randomnr s AND 0x1f)]\<rparr>
     else s)"

text \<open>The position updates of chaser mode, as written for pixels 0 and 2, and for pixel 1.\<close>

definition chase_up :: "u8 \<Rightarrow> u8" where
  "chase_up p = (if p > 22 then 0 else p + 1)"

definition chase_down :: "u8 \<Rightarrow> u8" where
  "chase_down p = (if p < 1 then 23 else p - 1)"

text \<open>Phases 1, 4 and 7: the position of pixel \<open>k\<close> when its chase counter is zero.\<close>

definition move_led :: "nat \<Rightarrow> (u8 \<Rightarrow> u8) \<Rightarrow> state \<Rightarrow> state" where
  "move_led k f s =
    (if LedChaseCount s ! k = 0
     then (if mode s \<noteq> 0
           then s\<lparr>LedPos := (LedPos s)[k := f (LedPos s ! k)]\<rparr>
           else s\<lparr>LedPos := (LedPos s)[k := randomposns s ! k]\<rparr>)
     else s)"

definition dec_chase :: "nat \<Rightarrow> state \<Rightarrow> state" where
  "dec_chase k s = s\<lparr>LedChaseCount := (LedChaseCount s)[k := LedChaseCount s ! k - 1]\<rparr>"

definition reload_chase :: "nat \<Rightarrow> u8 \<Rightarrow> state \<Rightarrow> state" where
  "reload_chase k t s =
    (if LedChaseCount s ! k = 0 then s\<lparr>LedChaseCount := (LedChaseCount s)[k := t]\<rparr> else s)"

text \<open>Phase 22: the shared colour counter has expired.\<close>

definition advance_color :: "state \<Rightarrow> state" where
  "advance_color s =
    (if LedColorCount s = 0
     then s\<lparr>LedColorCount := chasercolortargetcount,
            colorcount := (if colorcount s > 10 then 0 else colorcount s + 1)\<rparr>
     else s)"

text \<open>
  Phases 23 to 25: \<open>LedCol[k]=colors[i]\<close>.  The index expression is computed in \<open>int\<close>, so
  it is given as a natural number; a read at or beyond \<open>length colors\<close> sets \<open>oob\<close>.
\<close>

definition load_color :: "nat \<Rightarrow> nat \<Rightarrow> state \<Rightarrow> state" where
  "load_color k i s =
    s\<lparr>LedCol := (LedCol s)[k := colors ! i], oob := oob s \<or> \<not> i < length colors\<rparr>"

text \<open>Phase 26: the watchdog and the tock counter.\<close>

definition watchdog_tock :: "state \<Rightarrow> state" where
  "watchdog_tock s =
    (let s1 = s\<lparr>LedComTimePhase := 0xff\<rparr>;
         s2 = (if irwatchdog s1 < irwatchdogtimeout
               then s1\<lparr>irwatchdog := irwatchdog s1 + 1,
                       debugstatus := debugstatus s1 OR SETPA6\<rparr>
               else s1\<lparr>mode := 0, debugstatus := 0\<rparr>)
     in s2\<lparr>elapsedtocks := elapsedtocks s2 + 1\<rparr>)"

text \<open>The second \<open>switch (LedComTimePhase)\<close>.\<close>

definition pattern_update :: "state \<Rightarrow> state" where
  "pattern_update s =
    (let ph = LedComTimePhase s in
     if ph = 0 then dec_chase 0 s
     else if ph = 1 then move_led 0 chase_up s
     else if ph = 2 then reload_chase 0 chaserpositiontargetcount0 s
     else if ph = 3 then dec_chase 1 s
     else if ph = 4 then move_led 1 chase_down s
     else if ph = 5 then reload_chase 1 chaserpositiontargetcount1 s
     else if ph = 6 then dec_chase 2 s
     else if ph = 7 then move_led 2 chase_up s
     else if ph = 8 then reload_chase 2 chaserpositiontargetcount2 s
     else if ph = 9 then s\<lparr>randomnr := makerandom (randomnr s)\<rparr>
     else if ph = 10 then store_random 0 s
     else if ph = 11 then s\<lparr>randomnr := makerandom (randomnr s)\<rparr>
     else if ph = 12 then store_random 1 s
     else if ph = 13 then s\<lparr>randomnr := makerandom (randomnr s)\<rparr>
     else if ph = 14 then store_random 2 s
     else if ph = 15 then s\<lparr>randomnr := makerandom (randomnr s)\<rparr>
     else if ph = 16 then store_random 0 s
     else if ph = 17 then s\<lparr>randomnr := makerandom (randomnr s)\<rparr>
     else if ph = 18 then store_random 1 s
     else if ph = 19 then s\<lparr>randomnr := makerandom (randomnr s)\<rparr>
     else if ph = 20 then store_random 2 s
     else if ph = 21 then s\<lparr>LedColorCount := LedColorCount s - 1\<rparr>
     else if ph = 22 then advance_color s
     else if ph = 23 then load_color 0 (unat (colorcount s)) s
     else if ph = 24 then
       (if colorcount s < 8 then load_color 1 (unat (colorcount s) + 4) s
        else load_color 1 (unat (colorcount s) - 8) s)
     else if ph = 25 then
       (if colorcount s < 4 then load_color 2 (unat (colorcount s) + 8) s
        else load_color 2 (unat (colorcount s) - 4) s)
     else if ph = 26 then watchdog_tock s
     else s)"

subsection \<open>The handler\<close>

text \<open>
  One invocation of \<open>interrupt\<close> with the T16 request flag set (T16 is the only interrupt
  source the program enables): display, pattern update, \<open>LedComTimePhase++\<close>.
\<close>

definition interrupt :: "state \<Rightarrow> state" where
  "interrupt s =
    (let s1 = pattern_update (display_output (display_select s))
     in s1\<lparr>LedComTimePhase := LedComTimePhase s1 + 1\<rparr>)"

text \<open>\<open>n\<close> consecutive timer interrupts.\<close>

fun ticks :: "nat \<Rightarrow> state \<Rightarrow> state" where
  "ticks 0 s = s"
| "ticks (Suc n) s = interrupt (ticks n s)"

section \<open>The main context\<close>

definition tocks :: "state \<Rightarrow> u16" where
  "tocks s = elapsedtocks s"

definition reset_irwatchdog :: "state \<Rightarrow> state" where
  "reset_irwatchdog s = s\<lparr>irwatchdog := 0\<rparr>"

definition preset_irwatchdog :: "state \<Rightarrow> state" where
  "preset_irwatchdog s = s\<lparr>irwatchdog := irwatchdogtimeout\<rparr>"

text \<open>
  The body of \<open>if ((PA & 0x10)==0)\<close> in \<open>waituntiltocks\<close>: an IR edge has been seen.
\<close>

definition ir_edge :: "state \<Rightarrow> state" where
  "ir_edge s =
    (let s1 = reset_irwatchdog s; s2 = s1\<lparr>mode := 1\<rparr>
     in s2\<lparr>debugstatus := debugstatus s2 OR SETPA3\<rparr>)"

text \<open>
  The memory before \<open>main\<close> runs: the initialisers of the globals, zero for the rest.
\<close>

definition boot :: state where
  "boot = \<lparr>debugstatus = 0, colorcount = 0, mode = 0, irwatchdog = 0,
    LedPos = [0, 0, 0], LedCol = [0, 0, 0], LedComTimePhase = 0,
    LedChaseCount = [0, 0, 0], LedColorCount = 0, randomnr = 1,
    randomposns = [0, 0, 0], elapsedtocks = 0, previoustocks = 0,
    intt = 0, intda = 0, intca = 0, intdb = 0, intcb = 0,
    PA = 0, PAC = 0, PB = 0, PBC = 0, oob = False\<rparr>"

text \<open>
  \<open>main\<close> up to and including \<open>previoustocks=tocks()\<close>.  Interrupts are enabled by
  \<open>__engint()\<close> only after every variable has been set.
\<close>

definition main_init :: state where
  "main_init =
    (let s0 = boot\<lparr>PA := 0x00, PB := 0x00, PAC := 0x48, PBC := 0x04\<rparr>;
         s1 = s0\<lparr>mode := 0, debugstatus := SETPA6\<rparr>;
         s2 = preset_irwatchdog s1;
         s3 = s2\<lparr>PA := debugstatus s2\<rparr>;
         s4 = s3\<lparr>LedPos := [0, 8, 16], LedCol := [0x03, 0x0c, 0x30]\<rparr>;
         s5 = s4\<lparr>LedChaseCount := [chaserpositiontargetcount0,
                    chaserpositiontargetcount1, chaserpositiontargetcount2],
                 LedColorCount := chasercolortargetcount\<rparr>;
         s6 = s5\<lparr>elapsedtocks := 0\<rparr>
     in s6\<lparr>previoustocks := tocks s6\<rparr>)"

text \<open>
  \<open>waituntiltocks\<close> is a busy-wait: it returns only if timer interrupts arrive while it
  polls.  The environment of a call is the list of its polls: for each evaluation of the
  loop condition, the number of timer interrupts that were served since the previous one,
  and whether the IR line was low (\<open>(PA &0x10)==0\<close>) when the loop body sampled it.
  Interrupts served while the loop body runs are counted with the next poll.  The result
  is \<open>None\<close> when the list ends with the loop still waiting; otherwise the state on return
  and the polls that were not consumed.  The subtraction is on \<open>unsigned int\<close>, 16 bits on
  this target.
\<close>

type_synonym polls = "(nat \<times> bool) list"

fun waituntiltocks :: "u16 \<Rightarrow> u8 \<Rightarrow> polls \<Rightarrow> state \<Rightarrow> (state \<times> polls) option" where
  "waituntiltocks ttt monitor [] s = None"
| "waituntiltocks ttt monitor ((k, ir) # env) s =
    (let s1 = ticks k s; currenttocks = tocks s1 in
     if currenttocks - previoustocks s1 < ttt
     then waituntiltocks ttt monitor env (if monitor \<noteq> 0 \<and> ir then ir_edge s1 else s1)
     else Some (s1\<lparr>previoustocks := previoustocks s1 + ttt\<rparr>, env))"

text \<open>Consecutive calls of \<open>waituntiltocks\<close>, as in the body of the main loop.\<close>

fun waits :: "(u16 \<times> u8) list \<Rightarrow> polls \<Rightarrow> state \<Rightarrow> (state \<times> polls) option" where
  "waits [] env s = Some (s, env)"
| "waits ((ttt, monitor) # rs) env s =
    (case waituntiltocks ttt monitor env s of
       None \<Rightarrow> None
     | Some (s', env') \<Rightarrow> waits rs env' s')"

text \<open>
  Every write the main context makes to memory shared with the interrupt, one event per
  statement (\<open>debugstatus|=SETPA3\<close> taken as one step), and the timer interrupt.  A run of
  the program after \<open>main\<close>'s initialisation is an interleaving of these events; the event
  lists include every order in which the main loop and the interrupt can take their steps.
\<close>

datatype event = Tick | ResetWatchdog | SetMode | SetPA3 | Advance u16

fun apply_event :: "event \<Rightarrow> state \<Rightarrow> state" where
  "apply_event Tick s = interrupt s"
| "apply_event ResetWatchdog s = reset_irwatchdog s"
| "apply_event SetMode s = s\<lparr>mode := 1\<rparr>"
| "apply_event SetPA3 s = s\<lparr>debugstatus := debugstatus s OR SETPA3\<rparr>"
| "apply_event (Advance ttt) s = s\<lparr>previoustocks := previoustocks s + ttt\<rparr>"

fun exec :: "event list \<Rightarrow> state \<Rightarrow> state" where
  "exec [] s = s"
| "exec (e # es) s = exec es (apply_event e s)"

section \<open>Notions used in the properties\<close>

text \<open>The display part of the handler.\<close>

definition display :: "state \<Rightarrow> state" where
  "display s = display_output (display_select s)"

text \<open>The number of interrupts entered at phase 26 among the first \<open>n\<close> after \<open>s\<close>.\<close>

fun tock_count :: "nat \<Rightarrow> state \<Rightarrow> nat" where
  "tock_count 0 s = 0"
| "tock_count (Suc n) s =
    tock_count n s + (if LedComTimePhase (ticks n s) = 26 then 1 else 0)"

text \<open>The value \<open>tocks()\<close> returns at poll \<open>j\<close> of an environment.\<close>

definition poll_tocks :: "polls \<Rightarrow> nat \<Rightarrow> state \<Rightarrow> u16" where
  "poll_tocks env j s = tocks (ticks (sum_list (map fst (take (Suc j) env))) s)"

text \<open>
  The nine LED pins B0, B1, B3, B4, B5, B6, B7, A0, A7, as port (\<open>True\<close> for port A) and
  bit number.  A pin is driven when its control bit makes it an output; it is driven high
  or low by its data bit.
\<close>

definition led_pins :: "(bool \<times> nat) list" where
  "led_pins = [(False, 0), (False, 1), (False, 3), (False, 4), (False, 5), (False, 6),
               (False, 7), (True, 0), (True, 7)]"

definition pin_high :: "state \<Rightarrow> bool \<times> nat \<Rightarrow> bool" where
  "pin_high s p =
    (if fst p then bit (intca s) (snd p) \<and> bit (intda s) (snd p)
     else bit (intcb s) (snd p) \<and> bit (intdb s) (snd p))"

definition pin_low :: "state \<Rightarrow> bool \<times> nat \<Rightarrow> bool" where
  "pin_low s p =
    (if fst p then bit (intca s) (snd p) \<and> \<not> bit (intda s) (snd p)
     else bit (intcb s) (snd p) \<and> \<not> bit (intdb s) (snd p))"

text \<open>The state invariant of the pattern engine.\<close>

definition pattern_ok :: "state \<Rightarrow> bool" where
  "pattern_ok s \<longleftrightarrow>
     length (LedPos s) = 3 \<and> length (LedCol s) = 3 \<and> length (LedChaseCount s) = 3 \<and>
     length (randomposns s) = 3 \<and>
     list_all (\<lambda>p. p < 24) (LedPos s) \<and> list_all (\<lambda>p. p < 24) (randomposns s) \<and>
     colorcount s < 12 \<and> \<not> oob s"

text \<open>
  A drive pattern is legal when at most one LED pin is driven high, at most one is driven
  low, and no pin is both; it is dark when no LED pin is driven.
\<close>

definition drive_legal :: "state \<Rightarrow> bool" where
  "drive_legal s \<longleftrightarrow>
     length (filter (pin_high s) led_pins) \<le> 1 \<and>
     length (filter (pin_low s) led_pins) \<le> 1 \<and>
     list_all (\<lambda>p. \<not> (pin_high s p \<and> pin_low s p)) led_pins"

definition drive_dark :: "state \<Rightarrow> bool" where
  "drive_dark s \<longleftrightarrow>
     filter (pin_high s) led_pins = [] \<and> filter (pin_low s) led_pins = []"

text \<open>
  \<open>debugstatus\<close> only ever holds the bits \<open>SETPA3\<close> and \<open>SETPA6\<close>; in particular not the
  bits of the LED pins A0 and A7.
\<close>

definition debug_ok :: "state \<Rightarrow> bool" where
  "debug_ok s \<longleftrightarrow> debugstatus s AND 0xb7 = 0"

section \<open>Frame lemmas of the interrupt\<close>

lemma decode_high_frame [simp]:
  "debugstatus (decode_high h s) = debugstatus s"
  "colorcount (decode_high h s) = colorcount s"
  "mode (decode_high h s) = mode s"
  "irwatchdog (decode_high h s) = irwatchdog s"
  "LedPos (decode_high h s) = LedPos s"
  "LedCol (decode_high h s) = LedCol s"
  "LedComTimePhase (decode_high h s) = LedComTimePhase s"
  "LedChaseCount (decode_high h s) = LedChaseCount s"
  "LedColorCount (decode_high h s) = LedColorCount s"
  "randomnr (decode_high h s) = randomnr s"
  "randomposns (decode_high h s) = randomposns s"
  "elapsedtocks (decode_high h s) = elapsedtocks s"
  "previoustocks (decode_high h s) = previoustocks s"
  "intt (decode_high h s) = intt s"
  "oob (decode_high h s) = oob s"
  by (simp_all add: decode_high_def)

lemma decode_low_frame [simp]:
  "debugstatus (decode_low l s) = debugstatus s"
  "colorcount (decode_low l s) = colorcount s"
  "mode (decode_low l s) = mode s"
  "irwatchdog (decode_low l s) = irwatchdog s"
  "LedPos (decode_low l s) = LedPos s"
  "LedCol (decode_low l s) = LedCol s"
  "LedComTimePhase (decode_low l s) = LedComTimePhase s"
  "LedChaseCount (decode_low l s) = LedChaseCount s"
  "LedColorCount (decode_low l s) = LedColorCount s"
  "randomnr (decode_low l s) = randomnr s"
  "randomposns (decode_low l s) = randomposns s"
  "elapsedtocks (decode_low l s) = elapsedtocks s"
  "previoustocks (decode_low l s) = previoustocks s"
  "intt (decode_low l s) = intt s"
  "oob (decode_low l s) = oob s"
  by (simp_all add: decode_low_def)

lemma display_frame [simp]:
  "debugstatus (display s) = debugstatus s"
  "colorcount (display s) = colorcount s"
  "mode (display s) = mode s"
  "irwatchdog (display s) = irwatchdog s"
  "LedPos (display s) = LedPos s"
  "LedCol (display s) = LedCol s"
  "LedComTimePhase (display s) = LedComTimePhase s"
  "LedChaseCount (display s) = LedChaseCount s"
  "LedColorCount (display s) = LedColorCount s"
  "randomnr (display s) = randomnr s"
  "randomposns (display s) = randomposns s"
  "elapsedtocks (display s) = elapsedtocks s"
  "previoustocks (display s) = previoustocks s"
  by (simp_all add: display_def display_output_def display_select_def drive_pins_def Let_def)

lemma display_intt:
  "intt (display s) = led_select (LedComTimePhase s) (LedCol s) (LedPos s)"
  by (simp add: display_def display_output_def display_select_def drive_pins_def Let_def)

lemma display_oob:
  "oob (display s) \<longleftrightarrow>
     oob s \<or> \<not> unat (led_select (LedComTimePhase s) (LedCol s) (LedPos s)) < length pp"
  by (simp add: display_def display_output_def display_select_def drive_pins_def Let_def)

lemma interrupt_display:
  "interrupt s =
     (let s1 = pattern_update (display s) in s1\<lparr>LedComTimePhase := LedComTimePhase s1 + 1\<rparr>)"
  by (simp add: interrupt_def display_def)

lemmas pattern_defs = pattern_update_def dec_chase_def move_led_def reload_chase_def
  store_random_def advance_color_def load_color_def watchdog_tock_def Let_def

lemma interrupt_phase:
  "LedComTimePhase (interrupt s) =
     (if LedComTimePhase s = 26 then 0 else LedComTimePhase s + 1)"
  by (simp add: interrupt_display pattern_defs)

lemma interrupt_elapsedtocks:
  "elapsedtocks (interrupt s) =
     elapsedtocks s + (if LedComTimePhase s = 26 then 1 else 0)"
  by (simp add: interrupt_display pattern_defs)

lemma interrupt_irwatchdog:
  "irwatchdog (interrupt s) =
     (if LedComTimePhase s = 26 \<and> irwatchdog s < irwatchdogtimeout
      then irwatchdog s + 1 else irwatchdog s)"
  by (simp add: interrupt_display pattern_defs)

lemma interrupt_mode:
  "mode (interrupt s) =
     (if LedComTimePhase s = 26 \<and> \<not> irwatchdog s < irwatchdogtimeout then 0 else mode s)"
  by (simp add: interrupt_display pattern_defs)

lemma interrupt_debugstatus:
  "debugstatus (interrupt s) =
     (if LedComTimePhase s = 26
      then (if irwatchdog s < irwatchdogtimeout then debugstatus s OR SETPA6 else 0)
      else debugstatus s)"
  by (simp add: interrupt_display pattern_defs)

lemma interrupt_previoustocks: "previoustocks (interrupt s) = previoustocks s"
  by (simp add: interrupt_display pattern_defs)

lemma ticks_add: "ticks (m + n) s = ticks n (ticks m s)"
  by (induction n) simp_all

lemma ticks_previoustocks: "previoustocks (ticks n s) = previoustocks s"
  by (induction n) (simp_all add: interrupt_previoustocks)

lemma ticks_elapsedtocks: "elapsedtocks (ticks n s) = elapsedtocks s + of_nat (tock_count n s)"
  by (induction n) (simp_all add: interrupt_elapsedtocks)


lemma phase_le_step:
  fixes p :: u8
  assumes "p \<le> 26"
  shows "(if p = 26 then 0 else p + 1) \<le> (26 :: u8)"
  using assms by unat_arith

lemma phase_unat_step:
  fixes p :: u8
  assumes "p \<le> 26"
  shows "unat (if p = 26 then 0 else p + 1) = Suc (unat p) mod 27"
  using assms by (auto simp: word_le_nat_alt unat_word_ariths word_unat_eq_iff)

lemma phase_26_unat: "(p :: u8) = 26 \<longleftrightarrow> unat p = 26"
  by (simp add: word_unat_eq_iff)

lemma ticks_phase_le:
  "LedComTimePhase s \<le> 26 \<Longrightarrow> LedComTimePhase (ticks n s) \<le> 26"
  by (induction n) (simp_all add: interrupt_phase phase_le_step)

lemma ticks_phase_unat:
  "LedComTimePhase s \<le> 26 \<Longrightarrow>
   unat (LedComTimePhase (ticks n s)) = (unat (LedComTimePhase s) + n) mod 27"
proof (induction n)
  case 0
  then show ?case by (simp add: word_le_nat_alt)
next
  case (Suc n)
  have "LedComTimePhase (ticks n s) \<le> 26"
    using Suc.prems by (rule ticks_phase_le)
  then have "unat (LedComTimePhase (ticks (Suc n) s)) =
      Suc (unat (LedComTimePhase (ticks n s))) mod 27"
    by (simp only: ticks.simps interrupt_phase phase_unat_step)
  then show ?case
    using Suc by (simp add: mod_Suc_eq)
qed

lemma tock_count_div:
  "LedComTimePhase s \<le> 26 \<Longrightarrow> tock_count n s = (unat (LedComTimePhase s) + n) div 27"
proof (induction n)
  case 0
  then show ?case by (simp add: word_le_nat_alt)
next
  case (Suc n)
  let ?m = "unat (LedComTimePhase s) + n"
  have "LedComTimePhase (ticks n s) = 26 \<longleftrightarrow> ?m mod 27 = 26"
    using Suc.prems by (simp add: phase_26_unat ticks_phase_unat)
  moreover have "Suc ?m div 27 = ?m div 27 + (if ?m mod 27 = 26 then 1 else 0)"
    by (simp add: div_Suc mod_Suc)
  ultimately show ?case
    using Suc by simp
qed

text \<open>The watchdog over any number of ticks, in terms of the tocks among them.\<close>

lemma watchdog_run:
  assumes "unat (irwatchdog s) \<le> 4444"
  shows "unat (irwatchdog (ticks n s)) = min (unat (irwatchdog s) + tock_count n s) 4444 \<and>
         mode (ticks n s) = (if unat (irwatchdog s) + tock_count n s \<le> 4444 then mode s else 0) \<and>
         debugstatus (ticks n s) =
           (if tock_count n s = 0 then debugstatus s
            else if unat (irwatchdog s) + tock_count n s \<le> 4444 then debugstatus s OR SETPA6
            else 0)"
proof (induction n)
  case 0
  show ?case using assms by simp
next
  case (Suc n)
  let ?t = "ticks n s"
  let ?k = "unat (irwatchdog s) + tock_count n s"
  have w: "unat (irwatchdog ?t) = min ?k 4444"
    using Suc by simp
  have lt: "irwatchdog ?t < irwatchdogtimeout \<longleftrightarrow> ?k < 4444"
    unfolding word_less_nat_alt irwatchdogtimeout_def w by (simp add: min_def)
  have inc: "?k < 4444 \<Longrightarrow> unat (irwatchdog ?t + 1) = Suc ?k"
    using w by (simp add: unat_word_ariths)
  show ?case
  proof (cases "LedComTimePhase ?t = 26")
    case False
    then show ?thesis
      using Suc by (simp add: interrupt_irwatchdog interrupt_mode interrupt_debugstatus)
  next
    case True
    show ?thesis
    proof (cases "?k < 4444")
      case True
      with \<open>LedComTimePhase ?t = 26\<close> lt inc Suc show ?thesis
        by (simp add: interrupt_irwatchdog interrupt_mode interrupt_debugstatus
            word_bw_assocs)
    next
      case False
      with \<open>LedComTimePhase ?t = 26\<close> lt Suc show ?thesis
        by (simp add: interrupt_irwatchdog interrupt_mode interrupt_debugstatus)
    qed
  qed
qed

section \<open>Watchdog, boot and tock counter\<close>

lemmas init_defs = main_init_def boot_def preset_irwatchdog_def reset_irwatchdog_def
  ir_edge_def tocks_def Let_def

lemma main_init_fields:
  "mode main_init = 0"
  "irwatchdog main_init = 4444"
  "debugstatus main_init = 0x40"
  "LedComTimePhase main_init = 0"
  "elapsedtocks main_init = 0"
  "previoustocks main_init = 0"
  by (simp_all add: init_defs irwatchdogtimeout_def SETPA6_def)

lemma alerted_fields:
  "mode (ir_edge main_init) = 1"
  "irwatchdog (ir_edge main_init) = 0"
  "LedComTimePhase (ir_edge main_init) = 0"
  by (simp_all add: init_defs)

text \<open>
  Claim C1, as the code has it.  From Alerted mode (\<open>mode = 1\<close>) with the watchdog at 0 and
  no IR edge, the mode is still 1 as long as at most 4444 interrupts have been entered at
  phase 26; once the 4445th has run, the mode is 0 and \<open>debugstatus\<close> is 0.  The watchdog
  counts up to 4444 in 4444 tocks, and it is the next tock that finds it no longer below
  the timeout.
\<close>

theorem watchdog_reverts_after_timeout:
  assumes "mode s = 1" and "irwatchdog s = 0"
  shows "(tock_count n s \<le> 4444 \<longrightarrow> mode (ticks n s) = 1) \<and>
         (4444 < tock_count n s \<longrightarrow> mode (ticks n s) = 0 \<and> debugstatus (ticks n s) = 0)"
  using watchdog_run [of s n] assms by simp

text \<open>
  The theorem at the state reached from \<open>main_init\<close> by one IR edge.
\<close>

theorem watchdog_reverts_after_timeout_witness:
  "mode (ir_edge main_init) = 1 \<and> irwatchdog (ir_edge main_init) = 0 \<and>
   tock_count (27 * 4444) (ir_edge main_init) = 4444 \<and>
   mode (ticks (27 * 4444) (ir_edge main_init)) = 1 \<and>
   tock_count (27 * 4445) (ir_edge main_init) = 4445 \<and>
   mode (ticks (27 * 4445) (ir_edge main_init)) = 0 \<and>
   debugstatus (ticks (27 * 4445) (ir_edge main_init)) = 0"
  using watchdog_reverts_after_timeout [of "ir_edge main_init" "27 * 4444"]
    watchdog_reverts_after_timeout [of "ir_edge main_init" "27 * 4445"]
  by (simp add: alerted_fields tock_count_div)

text \<open>
  Claim C1 as stated fails: after the 4444th tock the mode has not reverted.
\<close>

theorem watchdog_still_alerted_at_4444:
  "mode (ir_edge main_init) = 1 \<and> irwatchdog (ir_edge main_init) = 0 \<and>
   tock_count (27 * 4444) (ir_edge main_init) = 4444 \<and>
   mode (ticks (27 * 4444) (ir_edge main_init)) \<noteq> 0"
  using watchdog_run [of "ir_edge main_init" "27 * 4444"]
  by (simp add: alerted_fields tock_count_div)

text \<open>
  Claim C2 as stated fails: \<open>main\<close> sets \<open>mode=0\<close>, so the tag does not start in
  Alerted mode.
\<close>

theorem boot_mode_not_alerted: "mode main_init \<noteq> 1"
  by (simp add: main_init_fields)

text \<open>
  Claim C2, as the code has it.  After \<open>main\<close>'s initialisation the mode is 0 (Listening),
  the watchdog is preset to the timeout 4444 and \<open>debugstatus\<close> is \<open>SETPA6\<close>.  With no IR
  input the mode is 0 after any number of interrupts, and \<open>debugstatus\<close> is cleared to 0
  by the first interrupt entered at phase 26.  That interrupt is the 27th: the number of
  interrupts entered at phase 26 among the first \<open>n\<close> is \<open>n div 27\<close>, so \<open>debugstatus\<close> is
  still \<open>SETPA6\<close> after 26 interrupts and is 0 after 27 and ever after.
\<close>

theorem boot_listening:
  "mode main_init = 0 \<and> irwatchdog main_init = irwatchdogtimeout \<and>
   debugstatus main_init = SETPA6 \<and> LedComTimePhase main_init = 0 \<and>
   mode (ticks n main_init) = 0 \<and>
   debugstatus (ticks n main_init) = (if tock_count n main_init = 0 then SETPA6 else 0) \<and>
   tock_count n main_init = n div 27 \<and>
   debugstatus (ticks n main_init) = (if n < 27 then SETPA6 else 0) \<and>
   LedComTimePhase (ticks 26 main_init) = 26 \<and>
   tock_count 26 main_init = 0 \<and> debugstatus (ticks 26 main_init) = SETPA6 \<and>
   tock_count 27 main_init = 1 \<and> mode (ticks 27 main_init) = 0 \<and>
   debugstatus (ticks 27 main_init) = 0"
proof -
  have le: "LedComTimePhase main_init \<le> 26"
    by (simp add: main_init_fields)
  have tc: "tock_count k main_init = k div 27" for k
    by (simp add: tock_count_div [OF le] main_init_fields)
  have run: "mode (ticks k main_init) = 0 \<and>
      debugstatus (ticks k main_init) = (if tock_count k main_init = 0 then SETPA6 else 0)"
    for k
    using watchdog_run [of main_init k]
    by (simp add: main_init_fields irwatchdogtimeout_def SETPA6_def)
  have dn: "debugstatus (ticks k main_init) = (if k < 27 then SETPA6 else 0)" for k
    using run [of k] by (simp add: tc div_eq_0_iff)
  have "unat (LedComTimePhase (ticks 26 main_init)) = 26"
    by (simp add: ticks_phase_unat [OF le] main_init_fields)
  then have ph: "LedComTimePhase (ticks 26 main_init) = 26"
    by (simp add: phase_26_unat)
  have "mode main_init = 0 \<and> irwatchdog main_init = irwatchdogtimeout \<and>
      debugstatus main_init = SETPA6 \<and> LedComTimePhase main_init = 0"
    by (simp add: main_init_fields irwatchdogtimeout_def SETPA6_def)
  moreover have "tock_count 26 main_init = 0 \<and> debugstatus (ticks 26 main_init) = SETPA6 \<and>
      tock_count 27 main_init = 1 \<and> debugstatus (ticks 27 main_init) = 0"
    by (simp add: tc dn)
  ultimately show ?thesis
    using run [of n] run [of 27] tc [of n] dn [of n] ph by simp
qed

text \<open>
  The theorem at 26, 27 and 28 interrupts: the 27th is entered at phase 26 and clears
  \<open>debugstatus\<close>, which was \<open>SETPA6\<close> (0x40) until then.
\<close>

theorem boot_listening_witness:
  "mode main_init = 0 \<and> irwatchdog main_init = 4444 \<and> debugstatus main_init = 0x40 \<and>
   tock_count 26 main_init = 0 \<and> debugstatus (ticks 26 main_init) = 0x40 \<and>
   LedComTimePhase (ticks 26 main_init) = 26 \<and>
   tock_count 27 main_init = 1 \<and> mode (ticks 27 main_init) = 0 \<and>
   debugstatus (ticks 27 main_init) = 0 \<and>
   tock_count 28 main_init = 1 \<and> mode (ticks 28 main_init) = 0 \<and>
   debugstatus (ticks 28 main_init) = 0"
  using boot_listening [of 26] boot_listening [of 27] boot_listening [of 28]
  by (simp add: irwatchdogtimeout_def SETPA6_def)

text \<open>
  Claim C3.  From a state with \<open>LedComTimePhase = 0\<close> and \<open>elapsedtocks = 0\<close>, every
  interrupt adds 1 to the value of \<open>tocks()\<close> if it is entered at phase 26 and 0 otherwise;
  the phase is 26 at every 27th interrupt, so that \<open>tocks()\<close> is the number of interrupts
  divided by 27, modulo \<open>2 ^ 16\<close>: 65535 after 65535 tocks, and 0 after 65536.
\<close>

theorem tocks_counts_phase_26:
  assumes "LedComTimePhase s = 0" and "elapsedtocks s = 0"
  shows "tocks (ticks (Suc n) s) =
           tocks (ticks n s) + (if LedComTimePhase (ticks n s) = 26 then 1 else 0) \<and>
         (LedComTimePhase (ticks n s) = 26 \<longleftrightarrow> n mod 27 = 26) \<and>
         tocks (ticks n s) = of_nat (n div 27) \<and>
         tocks (ticks (27 * 65535) s) = 65535 \<and>
         tocks (ticks (27 * 65536) s) = 0"
proof -
  have le: "LedComTimePhase s \<le> 26"
    using assms by simp
  have t: "tocks (ticks m s) = of_nat (m div 27)" for m
    using assms by (simp add: tocks_def ticks_elapsedtocks tock_count_div [OF le])
  have "LedComTimePhase (ticks n s) = 26 \<longleftrightarrow> n mod 27 = 26"
    using assms by (simp add: phase_26_unat ticks_phase_unat [OF le])
  moreover have "tocks (ticks (Suc n) s) =
      tocks (ticks n s) + (if LedComTimePhase (ticks n s) = 26 then 1 else 0)"
    by (simp add: tocks_def interrupt_elapsedtocks)
  moreover have "tocks (ticks (27 * 65535) s) = 65535"
    unfolding t by simp
  moreover have "tocks (ticks (27 * 65536) s) = 0"
    unfolding t by simp
  ultimately show ?thesis
    using t [of n] by simp
qed

text \<open>
  The theorem at \<open>main_init\<close>.
\<close>

theorem tocks_counts_phase_26_witness:
  "LedComTimePhase main_init = 0 \<and> elapsedtocks main_init = 0 \<and>
   tocks (ticks 27 main_init) = 1 \<and> tocks (ticks 26 main_init) = 0 \<and>
   tocks (ticks (27 * 65535) main_init) = 65535 \<and>
   tocks (ticks (27 * 65536) main_init) = 0"
  using tocks_counts_phase_26 [of main_init 27] tocks_counts_phase_26 [of main_init 26]
  by (simp add: main_init_fields)

section \<open>Pattern engine: positions, random draws, colours\<close>

text \<open>Chaser positions.\<close>

lemma chase_up_unat:
  assumes "p < 24"
  shows "unat (chase_up p) = (unat p + 1) mod 24"
proof (cases "p > 22")
  case True
  then have "unat p = 23"
    using assms by (simp add: word_less_nat_alt)
  with True show ?thesis
    by (simp add: chase_up_def)
next
  case False
  then have "unat p < 23"
    by (simp add: word_less_nat_alt)
  with False show ?thesis
    by (simp add: chase_up_def unat_word_ariths)
qed

lemma chase_down_unat:
  assumes "p < 24"
  shows "unat (chase_down p) = (unat p + 23) mod 24"
proof (cases "p < 1")
  case True
  then have "unat p = 0"
    by (simp add: word_less_nat_alt)
  with True show ?thesis
    by (simp add: chase_down_def)
next
  case False
  then have "1 \<le> unat p" "unat p < 24"
    using assms by (simp_all add: word_less_nat_alt)
  then have "unat (p - 1) = unat p - 1" "(unat p + 23) mod 24 = unat p - 1"
    by (simp_all add: unat_sub word_le_nat_alt mod_if)
  with False show ?thesis
    by (simp add: chase_down_def)
qed

lemma chase_up_iter:
  assumes "p < 24"
  shows "unat ((chase_up ^^ n) p) = (unat p + n) mod 24"
proof (induction n)
  case 0
  show ?case using assms by (simp add: word_less_nat_alt)
next
  case (Suc n)
  have "(chase_up ^^ n) p < 24"
    using Suc by (simp add: word_less_nat_alt)
  from chase_up_unat [OF this] Suc show ?case
    by (simp add: mod_Suc_eq)
qed

lemma chase_down_iter:
  assumes "p < 24"
  shows "unat ((chase_down ^^ n) p) = (unat p + 23 * n) mod 24"
proof (induction n)
  case 0
  show ?case using assms by (simp add: word_less_nat_alt)
next
  case (Suc n)
  have "(chase_down ^^ n) p < 24"
    using Suc by (simp add: word_less_nat_alt)
  from chase_down_unat [OF this] Suc
  have "unat ((chase_down ^^ Suc n) p) = ((unat p + 23 * n) mod 24 + 23) mod 24"
    by simp
  also have "\<dots> = (unat p + 23 * n + 23) mod 24"
    by (rule mod_add_left_eq)
  also have "\<dots> = (unat p + 23 * Suc n) mod 24"
    by (simp add: algebra_simps)
  finally show ?case .
qed

lemma chase_24:
  assumes "p < 24"
  shows "(chase_up ^^ 24) p = p" and "(chase_down ^^ 24) p = p"
proof -
  have "unat p < 24"
    using assms by (simp add: word_less_nat_alt)
  then have "(unat p + 24) mod 24 = unat p" "(unat p + 23 * 24) mod 24 = unat p"
    using mod_mult_self1 [of "unat p" 23 24] by simp_all
  then have "unat ((chase_up ^^ 24) p) = unat p" "unat ((chase_down ^^ 24) p) = unat p"
    by (simp_all only: chase_up_iter [OF assms] chase_down_iter [OF assms])
  then show "(chase_up ^^ 24) p = p" and "(chase_down ^^ 24) p = p"
    by (simp_all add: word_unat_eq_iff)
qed

lemma interrupt_LedPos:
  "LedPos (interrupt s) =
     (if LedComTimePhase s = 1 then LedPos (move_led 0 chase_up s)
      else if LedComTimePhase s = 4 then LedPos (move_led 1 chase_down s)
      else if LedComTimePhase s = 7 then LedPos (move_led 2 chase_up s)
      else LedPos s)"
  by (simp add: interrupt_display pattern_defs)

lemma and_18_1f: "(r AND 0x1f) AND 0x18 = r AND (0x18 :: u16)"
  by (simp add: word_bw_assocs)

lemma five_bit_cases:
  fixes x :: u16
  assumes "24 \<le> x" and "x \<le> 31"
  shows "x = 24 \<or> x = 25 \<or> x = 26 \<or> x = 27 \<or> x = 28 \<or> x = 29 \<or> x = 30 \<or> x = 31"
proof -
  from assms have "24 \<le> unat x" "unat x \<le> 31"
    by (simp_all add: word_le_nat_alt)
  then have "unat x = 24 \<or> unat x = 25 \<or> unat x = 26 \<or> unat x = 27 \<or>
      unat x = 28 \<or> unat x = 29 \<or> unat x = 30 \<or> unat x = 31"
    by linarith
  then show ?thesis
    by (simp add: word_unat_eq_iff)
qed

lemma accepted_draw_lt_24:
  fixes r :: u16
  assumes "r AND 0x18 \<noteq> 0x18"
  shows "(ucast (r AND 0x1f) :: u8) < 24"
proof -
  let ?x = "r AND 0x1f"
  have le: "?x \<le> 31"
    by (rule word_and_le1)
  have "?x < 24"
  proof (rule ccontr)
    assume "\<not> ?x < 24"
    then have "24 \<le> ?x" by simp
    from five_bit_cases [OF this le] have "?x AND 0x18 = 0x18"
      by (elim disjE) simp_all
    with assms show False
      by (simp add: and_18_1f)
  qed
  then have "unat ?x < 24"
    by (simp add: word_less_nat_alt)
  then have "unat (ucast ?x :: u8) < 24"
    by (simp add: unsigned_ucast_eq take_bit_nat_eq_self)
  then show ?thesis
    by (simp add: word_less_nat_alt)
qed

lemma interrupt_randomposns:
  "randomposns (interrupt s) =
     (if LedComTimePhase s = 10 \<or> LedComTimePhase s = 16 then randomposns (store_random 0 s)
      else if LedComTimePhase s = 12 \<or> LedComTimePhase s = 18 then randomposns (store_random 1 s)
      else if LedComTimePhase s = 14 \<or> LedComTimePhase s = 20 then randomposns (store_random 2 s)
      else randomposns s)"
  by (simp add: interrupt_display pattern_defs)


lemma interrupt_colorcount:
  "colorcount (interrupt s) =
     (if LedComTimePhase s = 22 \<and> LedColorCount s = 0
      then (if colorcount s > 10 then 0 else colorcount s + 1)
      else colorcount s)"
  by (simp add: interrupt_display pattern_defs)

lemma interrupt_LedColorCount:
  "LedColorCount (interrupt s) =
     (if LedComTimePhase s = 21 then LedColorCount s - 1
      else if LedComTimePhase s = 22 \<and> LedColorCount s = 0 then chasercolortargetcount
      else LedColorCount s)"
  by (simp add: interrupt_display pattern_defs)

lemma interrupt_LedCol:
  "LedCol (interrupt s) =
     (if LedComTimePhase s = 23 then (LedCol s)[0 := colors ! unat (colorcount s)]
      else if LedComTimePhase s = 24 then
        (LedCol s)[1 := colors ! (if colorcount s < 8 then unat (colorcount s) + 4
                                  else unat (colorcount s) - 8)]
      else if LedComTimePhase s = 25 then
        (LedCol s)[2 := colors ! (if colorcount s < 4 then unat (colorcount s) + 8
                                  else unat (colorcount s) - 4)]
      else LedCol s)"
  by (simp add: interrupt_display pattern_defs)

lemma color_offset_4:
  fixes c :: u8
  assumes "c < 12"
  shows "(if c < 8 then unat c + 4 else unat c - 8) = (unat c + 4) mod 12"
  using assms by (auto simp: word_less_nat_alt mod_if)

lemma color_offset_8:
  fixes c :: u8
  assumes "c < 12"
  shows "(if c < 4 then unat c + 8 else unat c - 4) = (unat c + 8) mod 12"
  using assms by (auto simp: word_less_nat_alt mod_if)

lemma colorcount_advance:
  fixes c :: u8
  assumes "c < 12"
  shows "unat (if c > 10 then 0 else c + 1) = (unat c + 1) mod 12"
proof (cases "c > 10")
  case True
  then have "unat c = 11"
    using assms by (simp add: word_less_nat_alt)
  with True show ?thesis by simp
next
  case False
  then have "unat c < 11"
    by (simp add: word_less_nat_alt)
  with False show ?thesis
    by (simp add: unat_word_ariths)
qed

text \<open>
  Claim C7.  The six phases that store a random position are 10, 12, 14 for pixels 0, 1,
  2 and again 16, 18, 20.  At such a phase, for every value of the generator, a draw with
  \<open>randomnr AND 0x18 = 0x18\<close> leaves \<open>randomposns\<close> as it was, and any other draw stores
  \<open>randomnr AND 0x1f\<close> in the pixel's slot, a value below 24.  At every other phase
  \<open>randomposns\<close> is not written.
\<close>

theorem random_draw_rejection:
  "((LedComTimePhase s, k) \<in> {(10, 0), (12, 1), (14, 2), (16, 0), (18, 1), (20, 2)} \<longrightarrow>
      (randomnr s AND 0x18 = 0x18 \<longrightarrow> randomposns (interrupt s) = randomposns s) \<and>
      (randomnr s AND 0x18 \<noteq> 0x18 \<longrightarrow>
         randomposns (interrupt s) = (randomposns s)[k := ucast (randomnr s AND 0x1f)] \<and>
         (ucast (randomnr s AND 0x1f) :: u8) < 24)) \<and>
   (LedComTimePhase s \<notin> {10, 12, 14, 16, 18, 20} \<longrightarrow>
      randomposns (interrupt s) = randomposns s)"
  using accepted_draw_lt_24 [of "randomnr s"]
  by (auto simp: interrupt_randomposns store_random_def)

text \<open>
  An accepted draw (0x1234 gives 20), a rejected draw (0x00f8) and a phase that does not
  store.
\<close>

theorem random_draw_rejection_witness:
  "randomposns (interrupt (main_init\<lparr>LedComTimePhase := 10, randomnr := 0x1234\<rparr>)) = [20, 0, 0] \<and>
   randomposns (interrupt (main_init\<lparr>LedComTimePhase := 12, randomnr := 0x00f8,
      randomposns := [20, 7, 0]\<rparr>)) = [20, 7, 0] \<and>
   randomposns (interrupt (main_init\<lparr>LedComTimePhase := 3, randomnr := 0x1234\<rparr>)) = [0, 0, 0]"
  using random_draw_rejection [of "main_init\<lparr>LedComTimePhase := 10, randomnr := 0x1234\<rparr>" 0]
    random_draw_rejection [of "main_init\<lparr>LedComTimePhase := 12, randomnr := 0x00f8,
      randomposns := [20, 7, 0]\<rparr>" 1]
    random_draw_rejection [of "main_init\<lparr>LedComTimePhase := 3, randomnr := 0x1234\<rparr>" 0]
  by (simp add: init_defs)

text \<open>
  Claim C8.  In chaser mode (\<open>mode\<close> non-zero), when the chase counter of a pixel is zero at
  the pixel's update phase (1, 4, 7), pixels 0 and 2 get \<open>chase_up\<close> of their position and
  pixel 1 gets \<open>chase_down\<close>.  On a position \<open>p\<close> in 0..23, \<open>chase_up\<close> is \<open>p + 1\<close> modulo 24
  and \<open>chase_down\<close> is \<open>p - 1\<close> modulo 24 (written \<open>p + 23\<close>), so both stay in 0..23, and 24
  updates of either kind return to \<open>p\<close>.
\<close>

theorem chaser_wraparound:
  assumes "mode s \<noteq> 0" and "p < 24"
  shows "(LedComTimePhase s = 1 \<and> LedChaseCount s ! 0 = 0 \<longrightarrow>
            LedPos (interrupt s) = (LedPos s)[0 := chase_up (LedPos s ! 0)]) \<and>
         (LedComTimePhase s = 4 \<and> LedChaseCount s ! 1 = 0 \<longrightarrow>
            LedPos (interrupt s) = (LedPos s)[1 := chase_down (LedPos s ! 1)]) \<and>
         (LedComTimePhase s = 7 \<and> LedChaseCount s ! 2 = 0 \<longrightarrow>
            LedPos (interrupt s) = (LedPos s)[2 := chase_up (LedPos s ! 2)]) \<and>
         unat (chase_up p) = (unat p + 1) mod 24 \<and>
         unat (chase_down p) = (unat p + 23) mod 24 \<and>
         (chase_up ^^ 24) p = p \<and> (chase_down ^^ 24) p = p"
  using assms chase_up_unat [of p] chase_down_unat [of p] chase_24 [of p]
  by (simp add: interrupt_LedPos move_led_def)

text \<open>
  The three update phases at the wrap-around positions 23 and 0.
\<close>

theorem chaser_wraparound_witness:
  "LedPos (interrupt (main_init\<lparr>mode := 1, LedComTimePhase := 1,
      LedChaseCount := [0, 11, 9], LedPos := [23, 0, 16]\<rparr>)) = [0, 0, 16] \<and>
   LedPos (interrupt (main_init\<lparr>mode := 1, LedComTimePhase := 4,
      LedChaseCount := [113, 0, 9], LedPos := [23, 0, 16]\<rparr>)) = [23, 23, 16] \<and>
   LedPos (interrupt (main_init\<lparr>mode := 1, LedComTimePhase := 7,
      LedChaseCount := [113, 11, 0], LedPos := [23, 0, 16]\<rparr>)) = [23, 0, 17] \<and>
   chase_up 23 = 0 \<and> chase_down 0 = 23 \<and>
   (chase_up ^^ 24) 5 = 5 \<and> (chase_down ^^ 24) 5 = 5"
  using
    chaser_wraparound [of "main_init\<lparr>mode := 1, LedComTimePhase := 1,
      LedChaseCount := [0, 11, 9], LedPos := [23, 0, 16]\<rparr>" 5]
    chaser_wraparound [of "main_init\<lparr>mode := 1, LedComTimePhase := 4,
      LedChaseCount := [113, 0, 9], LedPos := [23, 0, 16]\<rparr>" 5]
    chaser_wraparound [of "main_init\<lparr>mode := 1, LedComTimePhase := 7,
      LedChaseCount := [113, 11, 0], LedPos := [23, 0, 16]\<rparr>" 5]
  by (simp add: init_defs chase_up_def chase_down_def)

lemma ticks_3: "ticks 3 s = interrupt (interrupt (interrupt s))"
  by (simp add: numeral_3_eq_3)

lemma interrupt_LedCol_mod:
  assumes "colorcount s < 12"
  shows "LedCol (interrupt s) =
     (if LedComTimePhase s = 23 then (LedCol s)[0 := colors ! unat (colorcount s)]
      else if LedComTimePhase s = 24 then
        (LedCol s)[1 := colors ! ((unat (colorcount s) + 4) mod 12)]
      else if LedComTimePhase s = 25 then
        (LedCol s)[2 := colors ! ((unat (colorcount s) + 8) mod 12)]
      else LedCol s)"
  by (simp only: interrupt_LedCol color_offset_4 [OF assms] color_offset_8 [OF assms])

text \<open>
  Claim C9.  With \<open>colorcount\<close> in 0..11, the three interrupts entered at phases 23, 24
  and 25 leave \<open>LedCol\<close> equal to the palette entries at \<open>colorcount\<close>, \<open>colorcount + 4\<close> and
  \<open>colorcount + 8\<close> modulo 12, and do not change \<open>colorcount\<close>.  At phase 22, an expired
  colour counter is reloaded and \<open>colorcount\<close> advances by one modulo 12 (11 wraps to 0);
  a counter that has not expired leaves \<open>colorcount\<close> alone.
\<close>

theorem color_wheel:
  assumes "colorcount s < 12"
  shows "(LedComTimePhase s = 23 \<and> length (LedCol s) = 3 \<longrightarrow>
            LedCol (ticks 3 s) =
              [colors ! unat (colorcount s),
               colors ! ((unat (colorcount s) + 4) mod 12),
               colors ! ((unat (colorcount s) + 8) mod 12)] \<and>
            colorcount (ticks 3 s) = colorcount s) \<and>
         (LedComTimePhase s = 22 \<and> LedColorCount s = 0 \<longrightarrow>
            unat (colorcount (interrupt s)) = (unat (colorcount s) + 1) mod 12 \<and>
            LedColorCount (interrupt s) = chasercolortargetcount) \<and>
         (LedComTimePhase s = 22 \<and> LedColorCount s \<noteq> 0 \<longrightarrow>
            colorcount (interrupt s) = colorcount s)"
proof -
  have "LedCol (ticks 3 s) =
          [colors ! unat (colorcount s),
           colors ! ((unat (colorcount s) + 4) mod 12),
           colors ! ((unat (colorcount s) + 8) mod 12)] \<and>
        colorcount (ticks 3 s) = colorcount s"
    if ph: "LedComTimePhase s = 23" and len: "length (LedCol s) = 3"
  proof -
    obtain a b c where abc: "LedCol s = [a, b, c]"
      using len by (auto simp: length_Suc_conv numeral_3_eq_3)
    have c1: "colorcount (interrupt s) = colorcount s"
      and p1: "LedComTimePhase (interrupt s) = 24"
      using ph by (simp_all add: interrupt_colorcount interrupt_phase)
    have c2: "colorcount (interrupt (interrupt s)) = colorcount s"
      and p2: "LedComTimePhase (interrupt (interrupt s)) = 25"
      using p1 c1 by (simp_all add: interrupt_colorcount interrupt_phase)
    have c3: "colorcount (interrupt (interrupt (interrupt s))) = colorcount s"
      using p2 c2 by (simp add: interrupt_colorcount)
    have "LedCol (interrupt s) = [colors ! unat (colorcount s), b, c]"
      using ph abc by (simp add: interrupt_LedCol_mod [OF assms])
    then have "LedCol (interrupt (interrupt s)) =
        [colors ! unat (colorcount s), colors ! ((unat (colorcount s) + 4) mod 12), c]"
      using p1 c1 assms by (simp add: interrupt_LedCol_mod)
    then have "LedCol (interrupt (interrupt (interrupt s))) =
        [colors ! unat (colorcount s), colors ! ((unat (colorcount s) + 4) mod 12),
         colors ! ((unat (colorcount s) + 8) mod 12)]"
      using p2 c2 assms by (simp add: interrupt_LedCol_mod)
    with c3 show ?thesis
      by (simp add: ticks_3)
  qed
  moreover have "unat (colorcount (interrupt s)) = (unat (colorcount s) + 1) mod 12 \<and>
        LedColorCount (interrupt s) = chasercolortargetcount"
    if "LedComTimePhase s = 22" and "LedColorCount s = 0"
    using that colorcount_advance [OF assms]
    by (simp add: interrupt_colorcount interrupt_LedColorCount)
  moreover have "colorcount (interrupt s) = colorcount s"
    if "LedComTimePhase s = 22" and "LedColorCount s \<noteq> 0"
    using that by (simp add: interrupt_colorcount)
  ultimately show ?thesis
    by blast
qed

text \<open>
  Colour index 9 (offsets wrap to 1 and 5), and the wrap of the index from 11 to 0.
\<close>

theorem color_wheel_witness:
  "LedCol (ticks 3 (main_init\<lparr>LedComTimePhase := 23, colorcount := 9\<rparr>)) = [0x31, 0x07, 0x1c] \<and>
   colorcount (interrupt (main_init\<lparr>LedComTimePhase := 22, LedColorCount := 0,
      colorcount := 11\<rparr>)) = 0 \<and>
   colorcount (interrupt (main_init\<lparr>LedComTimePhase := 22, colorcount := 11\<rparr>)) = 11"
  using
    color_wheel [of "main_init\<lparr>LedComTimePhase := 23, colorcount := 9\<rparr>"]
    color_wheel [of "main_init\<lparr>LedComTimePhase := 22, LedColorCount := 0, colorcount := 11\<rparr>"]
    color_wheel [of "main_init\<lparr>LedComTimePhase := 22, colorcount := 11\<rparr>"]
  by (simp add: init_defs colors_def chasercolortargetcount_def word_unat_eq_iff)

section \<open>Display multiplexer\<close>

lemma phase_cases:
  fixes ph :: u8
  assumes "ph \<le> 26"
  shows "ph \<in> {0, 1, 2, 3, 4, 5, 6, 7, 8, 9, 10, 11, 12, 13, 14, 15, 16, 17, 18, 19, 20,
               21, 22, 23, 24, 25, 26}"
proof -
  have "unat ph < 27"
    using assms by (simp add: word_le_nat_alt)
  then have "unat ph \<in> {0, 1, 2, 3, 4, 5, 6, 7, 8, 9, 10, 11, 12, 13, 14, 15, 16, 17, 18,
      19, 20, 21, 22, 23, 24, 25, 26}"
    by (simp add: eval_nat_numeral less_Suc_eq)
  then show ?thesis
    by (simp add: word_unat_eq_iff)
qed

lemma mask_bits:
  fixes x :: u8
  shows "x AND 0x01 \<noteq> 0 \<longleftrightarrow> bit x 0"
    and "x AND 0x02 \<noteq> 0 \<longleftrightarrow> bit x 1"
    and "x AND 0x04 \<noteq> 0 \<longleftrightarrow> bit x 2"
    and "x AND 0x08 \<noteq> 0 \<longleftrightarrow> bit x 3"
    and "x AND 0x10 \<noteq> 0 \<longleftrightarrow> bit x 4"
    and "x AND 0x20 \<noteq> 0 \<longleftrightarrow> bit x 5"
  using and_exp_eq_0_iff_not_bit [of x 0] and_exp_eq_0_iff_not_bit [of x 1]
    and_exp_eq_0_iff_not_bit [of x 2] and_exp_eq_0_iff_not_bit [of x 3]
    and_exp_eq_0_iff_not_bit [of x 4] and_exp_eq_0_iff_not_bit [of x 5]
  by simp_all

lemma pos_offsets:
  fixes p :: u8
  assumes "p < 24"
  shows "p < 72" and "p + 24 < 72" and "p + 48 < 72"
  using assms by (simp_all add: word_less_nat_alt unat_word_ariths)


text \<open>
  Claim C5.  For every phase 0..26, all colour bytes and positions in 0..23, the selected
  index is either the sentinel 72 or a component-LED index below 72, never both.  At a
  phase \<open>ph\<close> in 0..8 the index is that of channel \<open>ph mod 3\<close> of pixel \<open>ph div 3\<close> (position
  plus 24 per channel) if the channel's low bit (bit \<open>2 * (ph mod 3)\<close> of the colour) is
  set, and 72 otherwise.  At a phase in 9..17 the same holds for \<open>ph - 9\<close> and the high
  bit (bit \<open>2 * ((ph - 9) mod 3) + 1\<close>), and phase \<open>ph + 9\<close> selects the same, so that each
  of the nine high-bit selections is made at two of the phases 9..26.
\<close>

theorem multiplexer_selection:
  assumes "ph \<le> 26" and "pos ! 0 < 24" and "pos ! 1 < 24" and "pos ! 2 < 24"
  shows "((led_select ph col pos = 72) \<noteq> (led_select ph col pos < 72)) \<and>
         (ph \<le> 8 \<longrightarrow>
            led_select ph col pos =
              (if bit (col ! (unat ph div 3)) (2 * (unat ph mod 3))
               then pos ! (unat ph div 3) + 24 * of_nat (unat ph mod 3) else 72)) \<and>
         (9 \<le> ph \<and> ph \<le> 17 \<longrightarrow>
            led_select ph col pos =
              (if bit (col ! ((unat ph - 9) div 3)) (2 * ((unat ph - 9) mod 3) + 1)
               then pos ! ((unat ph - 9) div 3) + 24 * of_nat ((unat ph - 9) mod 3)
               else 72) \<and>
            led_select (ph + 9) col pos = led_select ph col pos)"
proof -
  note p = pos_offsets [OF assms(2)] pos_offsets [OF assms(3)] pos_offsets [OF assms(4)]
  have ne: "pos ! 0 \<noteq> 72" "pos ! 0 + 24 \<noteq> 72" "pos ! 0 + 48 \<noteq> 72"
    "pos ! 1 \<noteq> 72" "pos ! 1 + 24 \<noteq> 72" "pos ! 1 + 48 \<noteq> 72"
    "pos ! 2 \<noteq> 72" "pos ! 2 + 24 \<noteq> 72" "pos ! 2 + 48 \<noteq> 72"
    using p by auto
  have one: "\<not> (9 :: u8) \<le> 1"
    by (simp add: word_le_nat_alt)
  from phase_cases [OF assms(1)] show ?thesis
    by (elim insertE emptyE)
      (simp_all add: led_select_def mask_bits p ne one del: One_nat_def)
qed

text \<open>
  The initial pixels: green of pixel 1 at position 8 is lit at phase 4, its red is not
  at phase 3, and blue of pixel 2 at position 16 is lit at phases 17 and 26.
\<close>

theorem multiplexer_selection_witness:
  "led_select 4 [0x03, 0x0c, 0x30] [0, 8, 16] = 32 \<and>
   led_select 3 [0x03, 0x0c, 0x30] [0, 8, 16] = 72 \<and>
   led_select 17 [0x03, 0x0c, 0x30] [0, 8, 16] = 64 \<and>
   led_select 26 [0x03, 0x0c, 0x30] [0, 8, 16] = 64"
  using multiplexer_selection [of 4 "[0, 8, 16]" "[0x03, 0x0c, 0x30]"]
    multiplexer_selection [of 3 "[0, 8, 16]" "[0x03, 0x0c, 0x30]"]
    multiplexer_selection [of 17 "[0, 8, 16]" "[0x03, 0x0c, 0x30]"]
  by simp

section \<open>Pin patterns and table bounds\<close>

text \<open>\<open>debugstatus\<close> along a run.\<close>

lemma debug_ok_bits:
  assumes "debug_ok s"
  shows "\<not> bit (debugstatus s) 0" and "\<not> bit (debugstatus s) 7"
proof -
  have "bit (debugstatus s AND 0xb7) n = bit (0 :: u8) n" for n
    using assms by (simp add: debug_ok_def)
  from this [of 0] this [of 7] show "\<not> bit (debugstatus s) 0" and "\<not> bit (debugstatus s) 7"
    by (simp_all add: bit_and_iff)
qed

lemma debug_ok_event: "debug_ok s \<Longrightarrow> debug_ok (apply_event e s)"
  by (cases e)
    (simp_all add: debug_ok_def interrupt_debugstatus reset_irwatchdog_def SETPA3_def
      SETPA6_def word_ao_dist)

lemma debug_ok_exec: "debug_ok s \<Longrightarrow> debug_ok (exec evs s)"
  by (induction evs arbitrary: s) (simp_all add: debug_ok_event)

lemma debug_ok_main_init: "debug_ok main_init"
  by (simp add: debug_ok_def init_defs SETPA6_def)

lemma length_pp: "length pp = 73"
  by (simp add: pp_def)

lemma pp_all_legal:
  assumes "\<not> bit (debugstatus s) 0" and "\<not> bit (debugstatus s) 7"
  shows "list_all (\<lambda>v. drive_legal (drive_pins v s)) pp"
  using assms
  by (simp add: pp_def drive_legal_def drive_pins_def decode_high_def decode_low_def
      led_pins_def pin_high_def pin_low_def bit_or_iff)


text \<open>
  Claim C6.  In every state of a run, for every component-LED index \<open>i\<close> in 0..72, the port
  images decoded from \<open>pp[i]\<close> drive at most one of the nine LED pins high, at most one
  low, and none both; for the sentinel 72 no LED pin is driven.  The run matters only
  through \<open>debugstatus\<close>, which is copied into the data image of port A.
\<close>

theorem pin_pattern_legal:
  assumes "i \<le> 72"
  shows "drive_legal (drive_pins (pp ! i) (exec evs main_init)) \<and>
         (i = 72 \<longrightarrow> drive_dark (drive_pins (pp ! i) (exec evs main_init)))"
proof -
  let ?s = "exec evs main_init"
  have ok: "debug_ok ?s"
    by (rule debug_ok_exec [OF debug_ok_main_init])
  have "i < length pp"
    using assms by (simp add: length_pp)
  with pp_all_legal [OF debug_ok_bits [OF ok]]
  have "drive_legal (drive_pins (pp ! i) ?s)"
    by (simp add: list_all_length)
  moreover have "drive_dark (drive_pins (pp ! 72) ?s)"
    by (simp add: pp_def drive_dark_def drive_pins_def decode_high_def decode_low_def
        led_pins_def pin_high_def pin_low_def)
  ultimately show ?thesis
    by simp
qed

text \<open>
  The sentinel and the entry 0x98 (A7 high, A0 low), with \<open>SETPA3\<close> set in \<open>debugstatus\<close>.
\<close>

theorem pin_pattern_legal_witness:
  "(72 :: nat) \<le> 72 \<and> drive_legal (drive_pins (pp ! 72) (exec [SetPA3] main_init)) \<and>
   drive_dark (drive_pins (pp ! 72) (exec [SetPA3] main_init)) \<and>
   drive_legal (drive_pins (pp ! 12) (exec [SetPA3] main_init))"
  using pin_pattern_legal [of 72 "[SetPA3]"] pin_pattern_legal [of 12 "[SetPA3]"]
  by simp

text \<open>The pattern invariant.\<close>

lemma list_all_update:
  "list_all P xs \<Longrightarrow> P v \<Longrightarrow> list_all P (xs[k := v])"
  by (induction xs arbitrary: k) (auto split: nat.splits)

lemma chase_lt_24:
  assumes "p < 24"
  shows "chase_up p < 24" and "chase_down p < 24"
  using chase_up_unat [OF assms] chase_down_unat [OF assms]
  by (simp_all add: word_less_nat_alt)

lemma led_select_le_72:
  assumes "pos ! 0 < 24" and "pos ! 1 < 24" and "pos ! 2 < 24"
  shows "led_select ph col pos \<le> 72"
proof (cases "ph \<le> 26")
  case True
  note p = pos_offsets [OF assms(1)] pos_offsets [OF assms(2)] pos_offsets [OF assms(3)]
  have le: "pos ! 0 \<le> 72" "pos ! 0 + 24 \<le> 72" "pos ! 0 + 48 \<le> 72"
    "pos ! 1 \<le> 72" "pos ! 1 + 24 \<le> 72" "pos ! 1 + 48 \<le> 72"
    "pos ! 2 \<le> 72" "pos ! 2 + 24 \<le> 72" "pos ! 2 + 48 \<le> 72"
    using p by auto
  from phase_cases [OF True] show ?thesis
    by (elim insertE emptyE) (simp_all add: led_select_def le del: One_nat_def)
next
  case False
  then have "ph \<notin> {0, 1, 2, 3, 4, 5, 6, 7, 8, 9, 10, 11, 12, 13, 14, 15, 16, 17, 18, 19,
      20, 21, 22, 23, 24, 25, 26}"
    by (auto simp: word_le_nat_alt)
  then show ?thesis
    by (simp add: led_select_def)
qed

lemma length_colors: "length colors = 12"
  by (simp add: colors_def)

lemma interrupt_intt:
  "intt (interrupt s) = led_select (LedComTimePhase s) (LedCol s) (LedPos s)"
proof -
  have "intt (pattern_update t) = intt t" for t
    by (simp add: pattern_defs)
  then show ?thesis
    by (simp add: interrupt_display display_intt Let_def)
qed

lemma interrupt_oob:
  "oob (interrupt s) \<longleftrightarrow>
     oob s \<or> \<not> unat (led_select (LedComTimePhase s) (LedCol s) (LedPos s)) < length pp \<or>
     (LedComTimePhase s = 23 \<and> \<not> unat (colorcount s) < length colors) \<or>
     (LedComTimePhase s = 24 \<and>
        \<not> (if colorcount s < 8 then unat (colorcount s) + 4 else unat (colorcount s) - 8)
           < length colors) \<or>
     (LedComTimePhase s = 25 \<and>
        \<not> (if colorcount s < 4 then unat (colorcount s) + 8 else unat (colorcount s) - 4)
           < length colors)"
proof -
  have "oob (pattern_update t) \<longleftrightarrow>
     oob t \<or>
     (LedComTimePhase t = 23 \<and> \<not> unat (colorcount t) < length colors) \<or>
     (LedComTimePhase t = 24 \<and>
        \<not> (if colorcount t < 8 then unat (colorcount t) + 4 else unat (colorcount t) - 8)
           < length colors) \<or>
     (LedComTimePhase t = 25 \<and>
        \<not> (if colorcount t < 4 then unat (colorcount t) + 8 else unat (colorcount t) - 4)
           < length colors)" for t
    by (simp add: pattern_defs)
  from this [of "display s"] show ?thesis
    by (simp add: interrupt_display display_oob Let_def)
qed

lemma interrupt_lengths:
  "length (LedPos (interrupt s)) = length (LedPos s)"
  "length (LedCol (interrupt s)) = length (LedCol s)"
  "length (randomposns (interrupt s)) = length (randomposns s)"
  by (simp_all add: interrupt_LedPos interrupt_LedCol interrupt_randomposns move_led_def
      store_random_def)

lemma interrupt_LedChaseCount_length:
  "length (LedChaseCount (interrupt s)) = length (LedChaseCount s)"
  by (simp add: interrupt_display pattern_defs)

lemma pattern_ok_nth:
  assumes "pattern_ok s"
  shows "LedPos s ! 0 < 24" "LedPos s ! 1 < 24" "LedPos s ! 2 < 24"
    "randomposns s ! 0 < 24" "randomposns s ! 1 < 24" "randomposns s ! 2 < 24"
  using assms by (simp_all add: pattern_ok_def list_all_length)

lemma pattern_ok_interrupt:
  assumes "pattern_ok s"
  shows "pattern_ok (interrupt s)"
proof -
  note n = pattern_ok_nth [OF assms]
  have c: "colorcount s < 12"
    using assms by (simp add: pattern_ok_def)
  have "list_all (\<lambda>p. p < 24) (LedPos (interrupt s))"
    using assms n chase_lt_24
    by (simp add: interrupt_LedPos move_led_def list_all_update pattern_ok_def)
  moreover have "list_all (\<lambda>p. p < 24) (randomposns (interrupt s))"
    using assms accepted_draw_lt_24 [of "randomnr s"]
    by (simp add: interrupt_randomposns store_random_def list_all_update pattern_ok_def)
  moreover have "colorcount (interrupt s) < 12"
    using c colorcount_advance [OF c]
    by (simp add: interrupt_colorcount word_less_nat_alt)
  moreover have "\<not> oob (interrupt s)"
  proof -
    have "unat (led_select (LedComTimePhase s) (LedCol s) (LedPos s)) < length pp"
      using led_select_le_72 [OF n(1-3), of "LedComTimePhase s" "LedCol s"]
      by (simp add: length_pp word_le_nat_alt)
    moreover have "unat (colorcount s) < 12"
      using c by (simp add: word_less_nat_alt)
    ultimately show ?thesis
      using assms color_offset_4 [OF c] color_offset_8 [OF c]
      by (simp add: interrupt_oob pattern_ok_def length_colors)
  qed
  ultimately show ?thesis
    using assms by (simp add: pattern_ok_def interrupt_lengths interrupt_LedChaseCount_length)
qed

lemma pattern_ok_event: "pattern_ok s \<Longrightarrow> pattern_ok (apply_event e s)"
  by (cases e) (simp_all add: pattern_ok_interrupt, simp_all add: pattern_ok_def reset_irwatchdog_def)

lemma pattern_ok_exec: "pattern_ok s \<Longrightarrow> pattern_ok (exec evs s)"
  by (induction evs arbitrary: s) (simp_all add: pattern_ok_event)

lemma pattern_ok_main_init: "pattern_ok main_init"
  by (simp add: pattern_ok_def init_defs)

text \<open>
  Claim C10.  In every state of a run from \<open>main\<close>'s initial state (positions 0, 8, 16),
  the positions in \<open>LedPos\<close> and \<open>randomposns\<close> are in 0..23 and \<open>colorcount\<close> is in 0..11
  (\<open>pattern_ok\<close>); the next interrupt selects an index \<open>intt\<close> in 0..72, below the length of
  \<open>pp\<close>, and reads neither \<open>pp\<close> nor \<open>colors\<close> out of bounds.
\<close>

theorem table_reads_in_range:
  "pattern_ok (exec evs main_init) \<and>
   LedPos main_init = [0, 8, 16] \<and>
   intt (interrupt (exec evs main_init)) \<le> 72 \<and>
   unat (intt (interrupt (exec evs main_init))) < length pp \<and>
   \<not> oob (interrupt (exec evs main_init))"
proof -
  let ?s = "exec evs main_init"
  have ok: "pattern_ok ?s"
    by (rule pattern_ok_exec [OF pattern_ok_main_init])
  have "intt (interrupt ?s) \<le> 72"
    using led_select_le_72 [OF pattern_ok_nth(1-3) [OF ok]] by (simp add: interrupt_intt)
  moreover from this have "unat (intt (interrupt ?s)) < length pp"
    by (simp add: length_pp word_le_nat_alt)
  moreover have "\<not> oob (interrupt ?s)"
    using pattern_ok_interrupt [OF ok] by (simp add: pattern_ok_def)
  moreover have "LedPos main_init = [0, 8, 16]"
    by (simp add: init_defs)
  ultimately show ?thesis
    using ok by simp
qed

text \<open>The theorem on a short run with an IR edge between two interrupts.\<close>

theorem table_reads_in_range_witness:
  "pattern_ok (exec [Tick, ResetWatchdog, SetMode, SetPA3, Tick] main_init) \<and>
   intt (interrupt (exec [Tick, ResetWatchdog, SetMode, SetPA3, Tick] main_init)) \<le> 72 \<and>
   \<not> oob (interrupt (exec [Tick, ResetWatchdog, SetMode, SetPA3, Tick] main_init))"
  using table_reads_in_range [of "[Tick, ResetWatchdog, SetMode, SetPA3, Tick]"]
  by simp

section \<open>Waiting for tocks\<close>

lemma ir_edge_frame [simp]:
  "LedComTimePhase (ir_edge s) = LedComTimePhase s"
  "elapsedtocks (ir_edge s) = elapsedtocks s"
  "previoustocks (ir_edge s) = previoustocks s"
  by (simp_all add: ir_edge_def reset_irwatchdog_def Let_def)

text \<open>The tock counter after some ticks depends on the phase and the counter only.\<close>

lemma ticks_clock_cong:
  assumes "LedComTimePhase s = LedComTimePhase t" and "elapsedtocks s = elapsedtocks t"
  shows "LedComTimePhase (ticks n s) = LedComTimePhase (ticks n t) \<and>
         elapsedtocks (ticks n s) = elapsedtocks (ticks n t)"
  using assms by (induction n) (simp_all add: interrupt_phase interrupt_elapsedtocks)

lemma poll_tocks_0: "poll_tocks ((k, ir) # env) 0 s = tocks (ticks k s)"
  by (simp add: poll_tocks_def)

lemma poll_tocks_Suc: "poll_tocks ((k, ir) # env) (Suc j) s = poll_tocks env j (ticks k s)"
  by (simp add: poll_tocks_def ticks_add)

lemma poll_tocks_ir_edge: "poll_tocks env j (ir_edge s) = poll_tocks env j s"
  using ticks_clock_cong [of "ir_edge s" s] by (simp add: poll_tocks_def tocks_def)

lemma waituntiltocks_None_iff:
  "waituntiltocks ttt m env s = None \<longleftrightarrow>
     (\<forall>i<length env. poll_tocks env i s - previoustocks s < ttt)"
proof (induction env arbitrary: s)
  case Nil
  show ?case by simp
next
  case (Cons e env)
  obtain k ir where e: "e = (k, ir)"
    by (cases e)
  let ?s1 = "ticks k s"
  let ?s2 = "if m \<noteq> 0 \<and> ir then ir_edge ?s1 else ?s1"
  have "poll_tocks env j ?s2 - previoustocks ?s2 =
        poll_tocks (e # env) (Suc j) s - previoustocks s" for j
    by (simp add: e poll_tocks_Suc poll_tocks_ir_edge ticks_previoustocks)
  with Cons.IH [of ?s2] show ?case
    by (simp add: e Let_def All_less_Suc2 poll_tocks_0 ticks_previoustocks)
qed

lemma waituntiltocks_Some:
  assumes "waituntiltocks ttt m env s = Some (s', rest)"
  shows "\<exists>i<length env. rest = drop (Suc i) env \<and>
           (\<forall>j<i. poll_tocks env j s - previoustocks s < ttt) \<and>
           ttt \<le> poll_tocks env i s - previoustocks s \<and>
           previoustocks s' = previoustocks s + ttt \<and>
           tocks s' = poll_tocks env i s"
  using assms
proof (induction env arbitrary: s)
  case Nil
  then show ?case by simp
next
  case (Cons e env)
  obtain k ir where e: "e = (k, ir)"
    by (cases e)
  let ?s1 = "ticks k s"
  let ?s2 = "if m \<noteq> 0 \<and> ir then ir_edge ?s1 else ?s1"
  show ?case
  proof (cases "tocks ?s1 - previoustocks ?s1 < ttt")
    case False
    with Cons.prems
    have "s' = ?s1\<lparr>previoustocks := previoustocks ?s1 + ttt\<rparr>" and "rest = env"
      by (simp_all add: e Let_def)
    with False have "rest = drop (Suc 0) (e # env) \<and>
        (\<forall>j<0. poll_tocks (e # env) j s - previoustocks s < ttt) \<and>
        ttt \<le> poll_tocks (e # env) 0 s - previoustocks s \<and>
        previoustocks s' = previoustocks s + ttt \<and>
        tocks s' = poll_tocks (e # env) 0 s"
      by (simp add: e poll_tocks_0 ticks_previoustocks tocks_def)
    then show ?thesis
      by (intro exI [of _ 0]) simp
  next
    case True
    with Cons.prems have "waituntiltocks ttt m env ?s2 = Some (s', rest)"
      by (simp add: e Let_def)
    from Cons.IH [OF this] obtain i where i: "i < length env" "rest = drop (Suc i) env"
      "\<forall>j<i. poll_tocks env j ?s2 - previoustocks ?s2 < ttt"
      "ttt \<le> poll_tocks env i ?s2 - previoustocks ?s2"
      "previoustocks s' = previoustocks ?s2 + ttt"
      "tocks s' = poll_tocks env i ?s2"
      by blast
    have eq: "poll_tocks env j ?s2 = poll_tocks (e # env) (Suc j) s" for j
      by (simp add: e poll_tocks_Suc poll_tocks_ir_edge)
    have pv: "previoustocks ?s2 = previoustocks s"
      by (simp add: ticks_previoustocks)
    have "poll_tocks (e # env) 0 s - previoustocks s < ttt"
      using True by (simp add: e poll_tocks_0 ticks_previoustocks)
    with i have "Suc i < length (e # env) \<and> rest = drop (Suc (Suc i)) (e # env) \<and>
        (\<forall>j<Suc i. poll_tocks (e # env) j s - previoustocks s < ttt) \<and>
        ttt \<le> poll_tocks (e # env) (Suc i) s - previoustocks s \<and>
        previoustocks s' = previoustocks s + ttt \<and>
        tocks s' = poll_tocks (e # env) (Suc i) s"
      unfolding eq pv by (simp add: All_less_Suc2)
    then show ?thesis
      by blast
  qed
qed

lemma waits_anchor:
  "waits reqs env s = Some (s', rest) \<Longrightarrow>
   previoustocks s' = previoustocks s + sum_list (map fst reqs)"
proof (induction reqs arbitrary: env s)
  case Nil
  then show ?case by simp
next
  case (Cons r reqs)
  obtain ttt m where r: "r = (ttt, m)"
    by (cases r)
  from Cons.prems obtain s1 env1
    where w: "waituntiltocks ttt m env s = Some (s1, env1)"
      and ws: "waits reqs env1 s1 = Some (s', rest)"
    by (auto simp: r split: option.splits)
  from waituntiltocks_Some [OF w] have "previoustocks s1 = previoustocks s + ttt"
    by blast
  with Cons.IH [OF ws] show ?case
    by (simp add: r add.assoc)
qed


text \<open>Polling once per timer tick.\<close>

lemma sum_fst_unit:
  "list_all (\<lambda>e. fst e = 1) env \<Longrightarrow> sum_list (map fst env) = length env"
  by (induction env) simp_all

lemma poll_tocks_unit:
  assumes "list_all (\<lambda>e. fst e = 1) env" and "i < length env"
  shows "poll_tocks env i s = tocks (ticks (Suc i) s)"
proof -
  have "list_all (\<lambda>e. fst e = 1) (take (Suc i) env)"
    using assms(1) by (auto simp: list_all_iff dest: in_set_takeD)
  from sum_fst_unit [OF this] assms(2) show ?thesis
    by (simp add: poll_tocks_def)
qed

lemma hit_within:
  assumes "LedComTimePhase s \<le> 26"
  shows "\<exists>n. 0 < n \<and> n \<le> 3538943 \<and> tocks (ticks n s) - previoustocks s = - 1"
proof -
  define p where "p = unat (LedComTimePhase s)"
  define q where "q = unat (previoustocks s - elapsedtocks s - 1)"
  define n where "n = 27 * (q + 65536) + 26 - p"
  have p: "p \<le> 26"
    using assms by (simp add: p_def word_le_nat_alt)
  have "q < 2 ^ LENGTH(16)"
    unfolding q_def by (rule unsigned_less)
  then have q: "q \<le> 65535"
    by simp
  have pn: "p + n = 27 * (q + 65536) + 26"
    using p by (simp add: n_def)
  have "(p + n) div 27 = q + 65536"
    unfolding pn by simp
  then have "tock_count n s = q + 65536"
    by (simp add: tock_count_div [OF assms] p_def)
  then have "tocks (ticks n s) = elapsedtocks s + of_nat q"
    by (simp add: tocks_def ticks_elapsedtocks)
  also have "\<dots> = previoustocks s - 1"
    by (simp add: q_def)
  finally have "tocks (ticks n s) - previoustocks s = - 1"
    by simp
  moreover have "0 < n" "n \<le> 3538943"
    using p q by (simp_all add: n_def)
  ultimately show ?thesis
    by blast
qed

lemma waituntiltocks_phase:
  "waituntiltocks ttt m env s = Some (s', rest) \<Longrightarrow> LedComTimePhase s \<le> 26 \<Longrightarrow>
   LedComTimePhase s' \<le> 26"
proof (induction env arbitrary: s)
  case Nil
  then show ?case by simp
next
  case (Cons e env)
  obtain k ir where e: "e = (k, ir)"
    by (cases e)
  let ?s1 = "ticks k s"
  let ?s2 = "if m \<noteq> 0 \<and> ir then ir_edge ?s1 else ?s1"
  have s1: "LedComTimePhase ?s1 \<le> 26"
    using Cons.prems(2) by (rule ticks_phase_le)
  show ?case
  proof (cases "tocks ?s1 - previoustocks ?s1 < ttt")
    case False
    with Cons.prems(1) have "s' = ?s1\<lparr>previoustocks := previoustocks ?s1 + ttt\<rparr>"
      by (simp add: e Let_def)
    with s1 show ?thesis by simp
  next
    case True
    with Cons.prems(1) have "waituntiltocks ttt m env ?s2 = Some (s', rest)"
      by (simp add: e Let_def)
    moreover have "LedComTimePhase ?s2 \<le> 26"
      using s1 by simp
    ultimately show ?thesis
      by (rule Cons.IH)
  qed
qed

lemma wait_unit_returns:
  assumes unit: "list_all (\<lambda>e. fst e = 1) env"
    and ph: "LedComTimePhase s \<le> 26"
    and len: "3538943 \<le> length env"
  shows "\<exists>s' rest. waituntiltocks ttt m env s = Some (s', rest) \<and>
           LedComTimePhase s' \<le> 26 \<and> list_all (\<lambda>e. fst e = 1) rest \<and>
           length env \<le> length rest + 3538943"
proof -
  from hit_within [OF ph] obtain n
    where n: "0 < n" "n \<le> 3538943" "tocks (ticks n s) - previoustocks s = - 1"
    by blast
  then have n1: "n - 1 < length env" "Suc (n - 1) = n"
    using len by simp_all
  have "poll_tocks env (n - 1) s - previoustocks s = - 1"
    using n(3) by (simp only: poll_tocks_unit [OF unit n1(1)] n1(2))
  then have hit: "\<not> poll_tocks env (n - 1) s - previoustocks s < ttt"
    by (simp add: not_less)
  then have "waituntiltocks ttt m env s \<noteq> None"
    using n1(1) by (auto simp: waituntiltocks_None_iff)
  then obtain s' rest where w: "waituntiltocks ttt m env s = Some (s', rest)"
    by auto
  from waituntiltocks_Some [OF w] obtain i
    where i: "i < length env" "rest = drop (Suc i) env"
      "\<forall>j<i. poll_tocks env j s - previoustocks s < ttt"
    by blast
  have "i \<le> n - 1"
    using i(3) hit by (meson not_less)
  then have "length env \<le> length rest + 3538943"
    using i(1,2) n(1,2) by simp
  moreover have "list_all (\<lambda>e. fst e = 1) rest"
    using unit i(2) by (auto simp: list_all_iff dest: in_set_dropD)
  ultimately show ?thesis
    using w waituntiltocks_phase [OF w ph] by blast
qed

lemma waits_unit_returns:
  "list_all (\<lambda>e. fst e = 1) env \<Longrightarrow> LedComTimePhase s \<le> 26 \<Longrightarrow>
   3538943 * length reqs \<le> length env \<Longrightarrow>
   \<exists>s' rest. waits reqs env s = Some (s', rest)"
proof (induction reqs arbitrary: env s)
  case Nil
  then show ?case by simp
next
  case (Cons r reqs)
  obtain ttt m where r: "r = (ttt, m)"
    by (cases r)
  from Cons.prems(3) have "3538943 \<le> length env"
    by simp
  from wait_unit_returns [OF Cons.prems(1,2) this, of ttt m] obtain s1 env1
    where w: "waituntiltocks ttt m env s = Some (s1, env1)"
      and s1: "LedComTimePhase s1 \<le> 26" "list_all (\<lambda>e. fst e = 1) env1"
        "length env \<le> length env1 + 3538943"
    by blast
  from s1(3) Cons.prems(3) have "3538943 * length reqs \<le> length env1"
    by simp
  from Cons.IH [OF s1(2,1) this] w show ?case
    by (simp add: r)
qed


text \<open>
  Claim C4.  \<open>waituntiltocks(ttt, monitor)\<close> returns if and only if at some poll the 16-bit
  difference \<open>tocks() - previoustocks\<close> is at least \<open>ttt\<close>.  When it returns, it does so at
  the first such poll \<open>i\<close> (the difference was below \<open>ttt\<close> at every earlier poll, and the
  polls after \<open>i\<close> are left over), and \<open>previoustocks\<close> has advanced by exactly \<open>ttt\<close> modulo
  \<open>2 ^ 16\<close>, whatever \<open>tocks()\<close> was at that poll.  Hence after any number of consecutive waits
  that return, \<open>previoustocks\<close> is the starting anchor plus the sum of the requested
  durations modulo \<open>2 ^ 16\<close>.  And they do return: when the loop polls once per timer tick,
  each wait needs at most 3538943 polls (two passes of the 16-bit tock counter).
\<close>

theorem waituntiltocks_anchor:
  "(waituntiltocks ttt m env s \<noteq> None \<longleftrightarrow>
      (\<exists>i<length env. ttt \<le> poll_tocks env i s - previoustocks s)) \<and>
   (waituntiltocks ttt m env s = Some (s', rest) \<longrightarrow>
      (\<exists>i<length env. rest = drop (Suc i) env \<and>
         (\<forall>j<i. poll_tocks env j s - previoustocks s < ttt) \<and>
         ttt \<le> poll_tocks env i s - previoustocks s \<and>
         previoustocks s' = previoustocks s + ttt \<and>
         tocks s' = poll_tocks env i s)) \<and>
   (waits reqs env s = Some (s'', rest') \<longrightarrow>
      previoustocks s'' = previoustocks s + sum_list (map fst reqs)) \<and>
   (list_all (\<lambda>e. fst e = 1) env \<and> LedComTimePhase s \<le> 26 \<and>
    3538943 * length reqs \<le> length env \<longrightarrow>
      (\<exists>t r. waits reqs env s = Some (t, r)))"
proof -
  have "waituntiltocks ttt m env s \<noteq> None \<longleftrightarrow>
      (\<exists>i<length env. ttt \<le> poll_tocks env i s - previoustocks s)"
    by (simp add: waituntiltocks_None_iff not_less)
  then show ?thesis
    using waituntiltocks_Some [of ttt m env s s' rest] waits_anchor [of reqs env s s'' rest']
      waits_unit_returns [of env s reqs]
    by blast
qed

lemma poll_tocks_main_init:
  "poll_tocks env j main_init = of_nat (sum_list (map fst (take (Suc j) env)) div 27)"
  by (simp add: poll_tocks_def tocks_def ticks_elapsedtocks tock_count_div main_init_fields)

text \<open>
  A wait of 2 tocks whose second poll comes late, at tock 5: the anchor advances to 2, not
  to 5.  And the three waits of one pass of the main loop (4074, 2 and 2 tocks), polled
  once per tick from \<open>main\<close>'s initial state: the anchor ends at 4078.
\<close>

theorem waituntiltocks_anchor_witness:
  "(\<exists>s' rest. waituntiltocks 2 0 [(27, False), (108, True)] main_init = Some (s', rest) \<and>
      rest = [] \<and> previoustocks s' = 2 \<and> tocks s' = 5) \<and>
   (\<exists>s' rest.
      waits [(transmitirpulseafter, 1), (irpulsetime, 0), (irdeaftime, 0)]
        (replicate 10616829 (1, False)) main_init = Some (s', rest) \<and>
      previoustocks s' = 4078)"
proof -
  let ?env = "[(27, False), (108, True)] :: polls"
  have p0: "poll_tocks ?env 0 main_init = 1" and p1: "poll_tocks ?env (Suc 0) main_init = 5"
    by (simp_all add: poll_tocks_main_init)
  have "\<exists>i<length ?env. (2 :: u16) \<le> poll_tocks ?env i main_init - previoustocks main_init"
    by (intro exI [of _ "Suc 0"]) (simp add: p1 main_init_fields)
  with waituntiltocks_anchor [of 2 0 ?env main_init]
  have "waituntiltocks 2 0 ?env main_init \<noteq> None"
    by blast
  then obtain x where "waituntiltocks 2 0 ?env main_init = Some x"
    using not_None_eq by blast
  then obtain s' rest where w: "waituntiltocks 2 0 ?env main_init = Some (s', rest)"
    by (cases x) blast
  with waituntiltocks_anchor [of 2 0 ?env main_init s' rest] obtain i
    where i: "i < length ?env" "rest = drop (Suc i) ?env"
      "(2 :: u16) \<le> poll_tocks ?env i main_init - previoustocks main_init"
      "previoustocks s' = previoustocks main_init + 2"
      "tocks s' = poll_tocks ?env i main_init"
    by blast
  have "i = Suc 0"
  proof (rule ccontr)
    assume "i \<noteq> Suc 0"
    with i(1) have "i = 0" by simp
    with i(3) show False
      by (simp add: p0 main_init_fields word_le_nat_alt)
  qed
  with i have "rest = [] \<and> previoustocks s' = 2 \<and> tocks s' = 5"
    by (simp add: p1 main_init_fields)
  with w have first: "\<exists>s' rest. waituntiltocks 2 0 ?env main_init = Some (s', rest) \<and>
      rest = [] \<and> previoustocks s' = 2 \<and> tocks s' = 5"
    by blast
  let ?unit = "replicate 10616829 (1, False) :: polls"
  let ?reqs = "[(transmitirpulseafter, 1), (irpulsetime, 0), (irdeaftime, 0)] :: (u16 \<times> u8) list"
  have "list_all (\<lambda>e. fst e = 1) ?unit \<and> LedComTimePhase main_init \<le> 26 \<and>
      3538943 * length ?reqs \<le> length ?unit"
    by (simp add: list_all_iff main_init_fields)
  with waituntiltocks_anchor [of _ _ ?unit main_init _ _ ?reqs]
  obtain t r where ws: "waits ?reqs ?unit main_init = Some (t, r)"
    by blast
  with waituntiltocks_anchor [of _ _ ?unit main_init _ _ ?reqs t r]
  have "previoustocks t = previoustocks main_init + sum_list (map fst ?reqs)"
    by blast
  then have "previoustocks t = 4078"
    by (simp add: main_init_fields transmitirpulseafter_def irpulsetime_def irdeaftime_def)
  with ws first show ?thesis
    by blast
qed

end
